theory Spec2Isabelle
  imports Main "HOL-Library.Char_ord"
begin

section \<open>Strings and the character classes of the regular expressions\<close>

text \<open>
  A JavaScript string is a sequence of code units. The model uses \<^typ>\<open>string\<close>, so a
  character is a code unit in the range 0..255 (ASCII and Latin-1); the order on
  characters is the order of their codes. The classes below are the ones the regular
  expressions of \<^verbatim>\<open>parser.ts\<close> and \<^verbatim>\<open>pipeline_builder.ts\<close> use (none of them has the
  \<^verbatim>\<open>u\<close> flag):
  \<^item> \<^verbatim>\<open>\w\<close> is \<^verbatim>\<open>[A-Za-z0-9_]\<close>, \<^verbatim>\<open>\d\<close> is \<^verbatim>\<open>[0-9]\<close>;
  \<^item> \<^verbatim>\<open>\s\<close> (and what \<^verbatim>\<open>trim\<close> removes) is TAB, LF, VT, FF, CR, space and NBSP;
  \<^item> \<^verbatim>\<open>.\<close> is every character but the line terminators LF and CR;
  \<^item> \<^verbatim>\<open>^\<close> and \<^verbatim>\<open>$\<close> (no \<^verbatim>\<open>m\<close> flag) are the two ends of the string.
\<close>

definition isDigit :: "char \<Rightarrow> bool" where
  "isDigit c = (CHR ''0'' \<le> c \<and> c \<le> CHR ''9'')"

definition isUpper :: "char \<Rightarrow> bool" where
  "isUpper c = (CHR ''A'' \<le> c \<and> c \<le> CHR ''Z'')"

definition isLower :: "char \<Rightarrow> bool" where
  "isLower c = (CHR ''a'' \<le> c \<and> c \<le> CHR ''z'')"

definition isUpperAlnum :: "char \<Rightarrow> bool" where
  \<comment> \<open>\<^verbatim>\<open>[A-Z0-9]\<close>\<close>
  "isUpperAlnum c = (isUpper c \<or> isDigit c)"

definition isWord :: "char \<Rightarrow> bool" where
  \<comment> \<open>\<^verbatim>\<open>\w\<close>\<close>
  "isWord c = (isUpper c \<or> isLower c \<or> isDigit c \<or> c = CHR ''_'')"

definition isSpace :: "char \<Rightarrow> bool" where
  \<comment> \<open>\<^verbatim>\<open>\s\<close>; \<^verbatim>\<open>\S\<close> is its complement\<close>
  "isSpace c = (c = CHR 0x09 \<or> c = CHR 0x0A \<or> c = CHR 0x0B \<or> c = CHR 0x0C \<or> c = CHR 0x0D
                \<or> c = CHR '' '' \<or> c = CHR 0xA0)"

definition isLineTerminator :: "char \<Rightarrow> bool" where
  "isLineTerminator c = (c = CHR 0x0A \<or> c = CHR 0x0D)"

definition dotPlus :: "string \<Rightarrow> bool" where
  \<comment> \<open>the whole string is matched by \<^verbatim>\<open>.+\<close>\<close>
  "dotPlus s = (s \<noteq> [] \<and> (\<forall>c \<in> set s. \<not> isLineTerminator c))"

definition startsWith :: "string \<Rightarrow> string \<Rightarrow> bool" where
  \<comment> \<open>\<^verbatim>\<open>s.startsWith(p)\<close>\<close>
  "startsWith s p = (take (length p) s = p)"

definition toLowerChar :: "char \<Rightarrow> char" where
  \<comment> \<open>A-Z and the Latin-1 capitals (0xC0-0xDE but the multiplication sign 0xD7) move
      up by 32; every other code unit below 256 is its own lower case\<close>
  "toLowerChar c =
     (if isUpper c \<or> (CHR 0xC0 \<le> c \<and> c \<le> CHR 0xDE \<and> c \<noteq> CHR 0xD7)
      then char_of (of_char c + (32::nat)) else c)"

definition toLowerCase :: "string \<Rightarrow> string" where
  "toLowerCase s = map toLowerChar s"

definition trim :: "string \<Rightarrow> string" where
  "trim s = rev (dropWhile isSpace (rev (dropWhile isSpace s)))"

definition join :: "string \<Rightarrow> string list \<Rightarrow> string" where
  \<comment> \<open>\<^verbatim>\<open>xs.join(sep)\<close>\<close>
  "join sep xs = (case xs of [] \<Rightarrow> [] | x # r \<Rightarrow> x @ concat (map (\<lambda>y. sep @ y) r))"

section \<open>Field shapes\<close>

text \<open>
  \<^verbatim>\<open>InstructionParser.fieldPatterns\<close> (\<^verbatim>\<open>parser.ts\<close>); the first three are also the
  literals of \<^verbatim>\<open>ParserPipeline.isLikelyDynamic\<close> and \<^verbatim>\<open>ParserPipeline.determineField\<close>.
\<close>

definition keysShape :: "string \<Rightarrow> bool" where
  \<comment> \<open>\<^verbatim>\<open>/^[A-Z0-9]{5,6}$/\<close>\<close>
  "keysShape v = ((length v = 5 \<or> length v = 6) \<and> (\<forall>c \<in> set v. isUpperAlnum c))"

definition linesShape :: "string \<Rightarrow> bool" where
  \<comment> \<open>\<^verbatim>\<open>/^[A-Z0-9]{3}$/\<close>\<close>
  "linesShape v = (length v = 3 \<and> (\<forall>c \<in> set v. isUpperAlnum c))"

definition brandsShape :: "string \<Rightarrow> bool" where
  \<comment> \<open>\<^verbatim>\<open>/^[A-Z0-9]{2,3}$/\<close>\<close>
  "brandsShape v = ((length v = 2 \<or> length v = 3) \<and> (\<forall>c \<in> set v. isUpperAlnum c))"

definition itemsShape :: "string \<Rightarrow> bool" where
  \<comment> \<open>\<^verbatim>\<open>/^([A-Z0-9]{6}|[A-Z0-9]{5}\s)[A-Z0-9]{4}$/\<close>\<close>
  "itemsShape v =
     (length v = 10 \<and> (\<forall>c \<in> set (take 5 v). isUpperAlnum c)
      \<and> (isUpperAlnum (v ! 5) \<or> isSpace (v ! 5))
      \<and> (\<forall>c \<in> set (drop 6 v). isUpperAlnum c))"

section \<open>Data model\<close>

text \<open>
  \<^verbatim>\<open>parser.ts\<close> and \<^verbatim>\<open>instruction.interface.ts\<close>: the enums, the four pattern
  interfaces (each with an optional \<^verbatim>\<open>keyPrefix\<close>), \<^verbatim>\<open>ParsedFieldSet\<close> and
  \<^verbatim>\<open>ParsedResult\<close>.
\<close>

datatype ComparisonOperator = GT | LT | GTE | LTE


datatype PatternField = Keys | Items | Lines | Brands

datatype Pattern =
    ValuePattern string "string option"
  | RegexPattern string "string option"
  | ComparisonPattern ComparisonOperator string "string option"
  | RangePattern string string "string option"

record ParsedFieldSet =
  "include" :: "Pattern list"
  exclude :: "Pattern list"

record ParsedResult =
  keys :: ParsedFieldSet
  items :: ParsedFieldSet
  lines :: ParsedFieldSet
  brands :: ParsedFieldSet
  desc :: string

definition emptyFieldSet :: ParsedFieldSet where
  "emptyFieldSet = \<lparr>include = [], exclude = []\<rparr>"

definition emptyResult :: ParsedResult where
  "emptyResult = \<lparr>keys = emptyFieldSet, items = emptyFieldSet, lines = emptyFieldSet,
                   brands = emptyFieldSet, desc = []\<rparr>"

text \<open>
  The alias tables \<^verbatim>\<open>InstructionParser.fieldAliases\<close> and \<^verbatim>\<open>ParserPipeline.aliasMap\<close>
  hold the same 24 entries. Both are plain object literals read with \<^verbatim>\<open>table[alias]\<close>,
  so a name that is not an own key is looked up in \<^verbatim>\<open>Object.prototype\<close>: the alias
  \<^verbatim>\<open>constructor\<close> yields the function \<^verbatim>\<open>Object\<close>, a truthy value that is no field. The
  alias has been lower-cased before the lookup and the runtime (Deno) removes
  \<^verbatim>\<open>__proto__\<close>, so \<^verbatim>\<open>constructor\<close> is the only inherited name an alias can hit.
\<close>

datatype FieldValue = Known PatternField | ObjectConstructor

definition aliasTable :: "(string \<times> PatternField) list" where
  "aliasTable =
     [(''key'', Keys), (''keys'', Keys), (''item'', Items), (''items'', Items),
      (''brand'', Brands), (''brands'', Brands), (''line'', Lines), (''lines'', Lines),
      (''clave'', Keys), (''claves'', Keys),
      (CHR 0xED # ''tem'', Items), (CHR 0xED # ''tems'', Items),
      (''art'' @ CHR 0xED # ''culo'', Items), (''articulo'', Items),
      (''art'' @ CHR 0xED # ''culos'', Items), (''articulos'', Items),
      (''producto'', Items), (''productos'', Items),
      (''l'' @ CHR 0xED # ''nea'', Lines), (''linea'', Lines),
      (''l'' @ CHR 0xED # ''neas'', Lines), (''lineas'', Lines),
      (''marca'', Brands), (''marcas'', Brands)]"

definition aliasLookup :: "string \<Rightarrow> FieldValue option" where
  \<comment> \<open>\<^verbatim>\<open>table[alias]\<close>; \<open>None\<close> is \<^verbatim>\<open>undefined\<close>\<close>
  "aliasLookup a =
     (case map_of aliasTable a of
        Some f \<Rightarrow> Some (Known f)
      | None \<Rightarrow> if a = ''constructor'' then Some ObjectConstructor else None)"

section \<open>The regular expressions shared by both parsers\<close>

definition wordColon :: "string \<Rightarrow> (string \<times> string) option" where
  \<comment> \<open>\<^verbatim>\<open>^(\w+):\<close>: the run of word characters at the start, when it is not empty and a
      colon follows it; returns the run and what follows the colon\<close>
  "wordColon s =
     (let w = takeWhile isWord s; r = dropWhile isWord s
      in if w \<noteq> [] \<and> startsWith r '':'' then Some (w, tl r) else None)"

definition isQuote :: "char \<Rightarrow> bool" where
  \<comment> \<open>\<^verbatim>\<open>["']\<close>\<close>
  "isQuote c = (c = CHR ''\"'' \<or> c = CHR 0x27)"

definition fieldMatchQuoted :: "string \<Rightarrow> (string \<times> string) option" where
  \<comment> \<open>\<^verbatim>\<open>/^(\w+):["'](.+)["']$/\<close>: groups 1 and 2\<close>
  "fieldMatchQuoted s =
     (case wordColon s of
        None \<Rightarrow> None
      | Some (w, r) \<Rightarrow>
          if 3 \<le> length r \<and> isQuote (hd r) \<and> isQuote (last r) \<and> dotPlus (butlast (tl r))
          then Some (w, butlast (tl r)) else None)"

definition fieldMatch :: "string \<Rightarrow> (string \<times> string) option" where
  \<comment> \<open>\<^verbatim>\<open>/^(\w+):(.+)$/\<close>: groups 1 and 2\<close>
  "fieldMatch s =
     (case wordColon s of
        None \<Rightarrow> None
      | Some (w, r) \<Rightarrow> if dotPlus r then Some (w, r) else None)"

definition keyPrefixMatch :: "string \<Rightarrow> (string \<times> string) option" where
  \<comment> \<open>\<^verbatim>\<open>/^\[([^\]]+)\](.+)$/\<close>: groups 1 and 2\<close>
  "keyPrefixMatch s =
     (case s of
        [] \<Rightarrow> None
      | c # r \<Rightarrow>
          (let p = takeWhile (\<lambda>x. x \<noteq> CHR '']'') r; q = dropWhile (\<lambda>x. x \<noteq> CHR '']'') r
           in if c = CHR ''['' \<and> p \<noteq> [] \<and> q \<noteq> [] \<and> dotPlus (tl q)
              then Some (p, tl q) else None))"

definition comparisonOperators :: "(string \<times> ComparisonOperator) list" where
  \<comment> \<open>the alternatives of \<^verbatim>\<open>(>=|<=|>|<)\<close>, in the order they are tried, with the
      operator \<^verbatim>\<open>operatorMap\<close> gives each\<close>
  "comparisonOperators = [(''>='', GTE), (''<='', LTE), (''>'', GT), (''<'', LT)]"

definition comparisonMatch :: "string \<Rightarrow> (ComparisonOperator \<times> string) option" where
  \<comment> \<open>\<^verbatim>\<open>/^(>=|<=|>|<)(.+)$/\<close> in \<^verbatim>\<open>parseComparison\<close> and \<^verbatim>\<open>/^([><]=?)(.+)$/\<close> in
      \<^verbatim>\<open>parseSingleToken\<close>: the first alternative whose rest is matched by \<^verbatim>\<open>.+\<close>\<close>
  "comparisonMatch v =
     (case filter (\<lambda>(s, op). startsWith v s \<and> dotPlus (drop (length s) v)) comparisonOperators of
        [] \<Rightarrow> None
      | (s, op) # _ \<Rightarrow> Some (op, drop (length s) v))"

fun lastSeparator :: "string \<Rightarrow> string \<Rightarrow> (string \<times> string) option" where
  \<comment> \<open>the split \<open>(a, b)\<close> of the string at its last \<^verbatim>\<open><>\<close> that leaves both sides non-empty;
      the first argument is what has been read\<close>
  "lastSeparator a [] = None"
| "lastSeparator a (c # r) =
     (case lastSeparator (a @ [c]) r of
        Some x \<Rightarrow> Some x
      | None \<Rightarrow> if a \<noteq> [] \<and> c = CHR ''<'' \<and> startsWith r ''>'' \<and> tl r \<noteq> []
                then Some (a, tl r) else None)"

definition rangeMatch :: "string \<Rightarrow> (string \<times> string) option" where
  \<comment> \<open>\<^verbatim>\<open>/^(.+)<>(.+)$/\<close>: the first group is greedy, so the split is at the last
      separator\<close>
  "rangeMatch v = (if dotPlus v then lastSeparator [] v else None)"

definition hasRegexChar :: "string \<Rightarrow> bool" where
  \<comment> \<open>\<^verbatim>\<open>/[*^$]/\<close>\<close>
  "hasRegexChar v = (\<exists>c \<in> set v. c = CHR ''*'' \<or> c = CHR ''^'' \<or> c = CHR ''$'')"

definition quotedBy :: "char \<Rightarrow> string \<Rightarrow> bool" where
  \<comment> \<open>\<^verbatim>\<open>/^".+"$/\<close> and \<^verbatim>\<open>/^'.+'$/\<close>\<close>
  "quotedBy q v = (3 \<le> length v \<and> hd v = q \<and> last v = q \<and> dotPlus (butlast (tl v)))"

definition stripQuote :: "char \<Rightarrow> string \<Rightarrow> string" where
  \<comment> \<open>\<^verbatim>\<open>v.replace(/^"|"$/g, "")\<close>: a quote at the start goes, then a quote at the end of
      what is left\<close>
  "stripQuote q v =
     (let v1 = (if v \<noteq> [] \<and> hd v = q then tl v else v)
      in if v1 \<noteq> [] \<and> last v1 = q then butlast v1 else v1)"

definition stripQuotes :: "string \<Rightarrow> string" where
  \<comment> \<open>\<^verbatim>\<open>v.replace(/^"|"$/g, "").replace(/^'|'$/g, "")\<close>\<close>
  "stripQuotes v = stripQuote (CHR 0x27) (stripQuote (CHR ''\"'') v)"

definition padStart :: "nat \<Rightarrow> char \<Rightarrow> string \<Rightarrow> string" where
  \<comment> \<open>\<^verbatim>\<open>s.padStart(n, c)\<close> for a one-character pad\<close>
  "padStart n c s = replicate (n - length s) c @ s"

definition pad4 :: "string \<Rightarrow> string" where
  \<comment> \<open>\<^verbatim>\<open>if (v.length < 4) v = v.padStart(4, "0")\<close>\<close>
  "pad4 v = (if length v < 4 then padStart 4 (CHR ''0'') v else v)"

section \<open>InstructionParser (\<^verbatim>\<open>parser.ts\<close>)\<close>

subsection \<open>The tokenizer\<close>

definition quotedAlternative :: "char \<Rightarrow> string \<Rightarrow> (string \<times> string) option" where
  \<comment> \<open>\<^verbatim>\<open>\w+:"[^"]+"\<close> (and the same with \<^verbatim>\<open>'\<close>) at the start of the string: the match
      and what follows it\<close>
  "quotedAlternative q s =
     (case wordColon s of
        None \<Rightarrow> None
      | Some (w, r) \<Rightarrow>
          (let b = takeWhile (\<lambda>x. x \<noteq> q) (tl r); e = dropWhile (\<lambda>x. x \<noteq> q) (tl r)
           in if startsWith r [q] \<and> b \<noteq> [] \<and> e \<noteq> []
              then Some (w @ '':'' @ [q] @ b @ [q], tl e) else None))"

definition nonSpaceRun :: "string \<Rightarrow> (string \<times> string) option" where
  \<comment> \<open>\<^verbatim>\<open>\S+\<close> at the start of the string\<close>
  "nonSpaceRun s =
     (let t = takeWhile (\<lambda>x. \<not> isSpace x) s
      in if t \<noteq> [] then Some (t, dropWhile (\<lambda>x. \<not> isSpace x) s) else None)"

definition matchAt :: "string \<Rightarrow> (string \<times> string) option" where
  \<comment> \<open>\<^verbatim>\<open>\w+:"[^"]+"|\w+:'[^']+'|\S+\<close> at the start of the string, the alternatives in
      their order\<close>
  "matchAt s =
     (case quotedAlternative (CHR ''\"'') s of
        Some m \<Rightarrow> Some m
      | None \<Rightarrow>
          (case quotedAlternative (CHR 0x27) s of
             Some m \<Rightarrow> Some m
           | None \<Rightarrow> nonSpaceRun s))"

function matchAll :: "string \<Rightarrow> string list" where
  \<comment> \<open>every match of the global expression, left to right: \<^verbatim>\<open>input.match(re)\<close> (with
      \<^verbatim>\<open>|| []\<close>) and the \<^verbatim>\<open>regex.exec\<close> loop; where nothing matches the scan moves on by one
      character\<close>
  "matchAll s =
     (if s = [] then []
      else case matchAt s of
             Some (m, r) \<Rightarrow> m # matchAll r
           | None \<Rightarrow> matchAll (tl s))"
  by pat_completeness auto
termination
proof (relation "measure length")
  show "wf (measure length)" by simp
next
  fix s :: string assume "s \<noteq> []" "matchAt s = None"
  then show "(tl s, s) \<in> measure length" by (cases s) auto
next
  fix s x m r assume ne: "s \<noteq> []" and x: "matchAt s = Some x" and mr: "(m, r) = x"
  have wc: "length r0 < length s" if "wordColon s = Some (w, r0)" for w r0
  proof -
    from that have r: "r0 = tl (dropWhile isWord s)"
      and tk: "take (Suc 0) (dropWhile isWord s) = '':''"
      by (simp_all add: wordColon_def Let_def startsWith_def split: if_splits)
    from tk have ne: "dropWhile isWord s \<noteq> []" by (cases "dropWhile isWord s") simp_all
    have "length (dropWhile isWord s) \<le> length s" by (rule length_dropWhile_le)
    with ne show ?thesis unfolding r by (cases "dropWhile isWord s") auto
  qed
  have qa: "length r < length s" if a: "quotedAlternative q s = Some (m, r)" for q
  proof -
    from a obtain w r0 where w: "wordColon s = Some (w, r0)"
      by (auto simp: quotedAlternative_def split: option.splits)
    from a w have r: "r = tl (dropWhile (\<lambda>x. x \<noteq> q) (tl r0))"
      by (auto simp: quotedAlternative_def Let_def split: if_splits)
    have "length (dropWhile (\<lambda>x. x \<noteq> q) (tl r0)) \<le> length (tl r0)"
      by (rule length_dropWhile_le)
    then have "length r \<le> length r0" unfolding r by simp
    with wc [OF w] show ?thesis by simp
  qed
  have ns: "length r < length s" if a: "nonSpaceRun s = Some (m, r)"
  proof -
    from a have r: "r = dropWhile (\<lambda>x. \<not> isSpace x) s"
      and t: "takeWhile (\<lambda>x. \<not> isSpace x) s \<noteq> []"
      by (auto simp: nonSpaceRun_def Let_def split: if_splits)
    have "length (takeWhile (\<lambda>x. \<not> isSpace x) s) + length (dropWhile (\<lambda>x. \<not> isSpace x) s)
          = length s"
      by (metis length_append takeWhile_dropWhile_id)
    with t show ?thesis unfolding r by (cases "takeWhile (\<lambda>x. \<not> isSpace x) s") auto
  qed
  from x mr have "matchAt s = Some (m, r)" by simp
  then have "length r < length s"
    using qa ns by (auto simp: matchAt_def split: option.splits)
  then show "(r, s) \<in> measure length" by simp
qed

declare matchAll.simps [simp del]

fun hasFieldPrefix :: "string \<Rightarrow> bool" where
  \<comment> \<open>\<^verbatim>\<open>/(\w+):/i.test(s)\<close>: some word character is followed by a colon\<close>
  "hasFieldPrefix (c # d # r) = ((isWord c \<and> d = CHR '':'') \<or> hasFieldPrefix (d # r))"
| "hasFieldPrefix _ = False"

definition tokenize :: "string \<Rightarrow> string list" where
  "tokenize instruction =
     (if \<not> hasFieldPrefix instruction then [instruction] else matchAll instruction)"

subsection \<open>Pattern extraction\<close>

definition truthy :: "string option \<Rightarrow> string option" where
  \<comment> \<open>\<^verbatim>\<open>...(keyPrefix ? { keyPrefix } : {})\<close>: an empty prefix is dropped like a missing one\<close>
  "truthy k = (case k of Some p \<Rightarrow> if p = [] then None else Some p | None \<Rightarrow> None)"

definition isComparisonPattern :: "string \<Rightarrow> bool" where
  \<comment> \<open>\<^verbatim>\<open>/^(>=|<=|>|<).+/\<close>, with no \<^verbatim>\<open>$\<close>: one character that is no line terminator after
      the operator is enough\<close>
  "isComparisonPattern v =
     (\<exists>(s, op) \<in> set comparisonOperators.
        startsWith v s \<and> length s < length v \<and> \<not> isLineTerminator (v ! length s))"

definition parseComparison :: "string \<Rightarrow> (ComparisonOperator \<times> string) option" where
  "parseComparison v =
     (case comparisonMatch v of
        Some (op, rawValue) \<Rightarrow> Some (op, pad4 rawValue)
      | None \<Rightarrow> None)"

definition isRangePattern :: "string \<Rightarrow> bool" where
  "isRangePattern v = (rangeMatch v \<noteq> None)"

definition parseRange :: "string \<Rightarrow> (string \<times> string) option" where
  "parseRange v =
     (case rangeMatch v of
        Some (start, end) \<Rightarrow> Some (pad4 start, pad4 end)
      | None \<Rightarrow> None)"

definition isRegexPattern :: "string \<Rightarrow> bool" where
  "isRegexPattern v = (hasRegexChar v \<or> quotedBy (CHR ''\"'') v \<or> quotedBy (CHR 0x27) v)"

definition parseRegex :: "string \<Rightarrow> string" where
  "parseRegex v = stripQuotes v"

definition extractPatterns :: "string \<Rightarrow> Pattern list" where
  "extractPatterns v =
     (let (keyPrefix, patternValue) =
            (case keyPrefixMatch v of Some (p, r) \<Rightarrow> (Some p, r) | None \<Rightarrow> (None, v))
      in if isComparisonPattern patternValue then
           (case parseComparison patternValue of
              Some (op, x) \<Rightarrow> [ComparisonPattern op x (truthy keyPrefix)]
            | None \<Rightarrow> [])
         else if isRangePattern patternValue then
           (case parseRange patternValue of
              Some (s, e) \<Rightarrow> [RangePattern s e (truthy keyPrefix)]
            | None \<Rightarrow> [])
         else if isRegexPattern patternValue then
           (let regex = parseRegex patternValue
            in if regex \<noteq> [] then [RegexPattern regex (truthy keyPrefix)] else [])
         else [ValuePattern (stripQuotes patternValue) (truthy keyPrefix)])"

subsection \<open>Field resolution and the parsing loop\<close>

fun patternDefault :: "string \<Rightarrow> Pattern list \<Rightarrow> PatternField option" where
  \<comment> \<open>the second loop of \<^verbatim>\<open>determineField\<close>, over the extracted patterns\<close>
  "patternDefault v [] = None"
| "patternDefault v (ComparisonPattern _ _ _ # ps) = Some Items"
| "patternDefault v (RangePattern _ _ _ # ps) = Some Items"
| "patternDefault v (RegexPattern _ _ # ps) = Some Items"
| "patternDefault v (ValuePattern _ _ # ps) =
     (if itemsShape v then Some Items
      else if keysShape v then Some Keys
      else if linesShape v then Some Lines
      else if brandsShape v then Some Brands
      else patternDefault v ps)"

definition determineField :: "string \<Rightarrow> Pattern list \<Rightarrow> PatternField option" where
  \<comment> \<open>\<^verbatim>\<open>InstructionParser.determineField\<close>: \<^verbatim>\<open>Object.entries(fieldPatterns)\<close> runs in the
      order keys, items, lines, brands (\<^verbatim>\<open>desc\<close> is skipped)\<close>
  "determineField v patterns =
     (if keysShape v then Some Keys
      else if itemsShape v then Some Items
      else if linesShape v then Some Lines
      else if brandsShape v then Some Brands
      else patternDefault v patterns)"

definition push :: "bool \<Rightarrow> Pattern list \<Rightarrow> ParsedFieldSet \<Rightarrow> ParsedFieldSet" where
  \<comment> \<open>\<^verbatim>\<open>set[exclude ? "exclude" : "include"].push(pattern)\<close> for each pattern\<close>
  "push ex ps fs = (if ex then fs\<lparr>exclude := exclude fs @ ps\<rparr> else fs\<lparr>include := include fs @ ps\<rparr>)"

definition assignPatterns :: "Pattern list \<Rightarrow> PatternField \<Rightarrow> bool \<Rightarrow> ParsedResult \<Rightarrow> ParsedResult" where
  "assignPatterns ps f ex r =
     (case f of
        Keys \<Rightarrow> r\<lparr>keys := push ex ps (keys r)\<rparr>
      | Items \<Rightarrow> r\<lparr>items := push ex ps (items r)\<rparr>
      | Lines \<Rightarrow> r\<lparr>lines := push ex ps (lines r)\<rparr>
      | Brands \<Rightarrow> r\<lparr>brands := push ex ps (brands r)\<rparr>)"

datatype error = TypeError | DuplicateKey

definition stripExclusion :: "string \<Rightarrow> bool \<times> string" where
  \<comment> \<open>\<^verbatim>\<open>if (token.startsWith("-")) { exclude = true; value = value.substring(1) }\<close>\<close>
  "stripExclusion token = (if startsWith token ''-'' then (True, drop 1 token) else (False, token))"

definition splitAlias :: "string \<Rightarrow> FieldValue option \<times> string" where
  \<comment> \<open>the two alias expressions of \<^verbatim>\<open>parseInstruction\<close>: the value is replaced by the
      second group also when the alias is unknown\<close>
  "splitAlias v =
     (case fieldMatchQuoted v of
        Some (a, b) \<Rightarrow> (aliasLookup (toLowerCase a), b)
      | None \<Rightarrow>
          (case fieldMatch v of
             Some (a, b) \<Rightarrow> (aliasLookup (toLowerCase a), b)
           | None \<Rightarrow> (None, v)))"

definition processToken ::
  "string \<Rightarrow> string option \<Rightarrow> ParsedResult \<Rightarrow> error + (ParsedResult \<times> bool)" where
  \<comment> \<open>one round of the loop of \<^verbatim>\<open>parseInstruction\<close> at a token with the token after it
      (if any); the flag says that the next token has been merged into this one
      (\<^verbatim>\<open>processedIndices.add(i + 1)\<close>). With the inherited alias, \<^verbatim>\<open>this.result[field]\<close>
      is \<^verbatim>\<open>undefined\<close> and \<^verbatim>\<open>assignPatterns\<close> throws\<close>
  "processToken token nxt r =
     (let (ex, v0) = stripExclusion token;
          (field, v) = splitAlias v0;
          combined = (case nxt of Some n \<Rightarrow> v @ '' '' @ n | None \<Rightarrow> [])
      in if field = None \<and> nxt \<noteq> None \<and> itemsShape combined
         then Inr (assignPatterns (extractPatterns combined) Items ex r, True)
         else
           (let patterns = extractPatterns v
            in if patterns \<noteq> [] then
                 (case field of
                    Some (Known f) \<Rightarrow> Inr (assignPatterns patterns f ex r, False)
                  | Some ObjectConstructor \<Rightarrow> Inl TypeError
                  | None \<Rightarrow>
                      (case determineField v patterns of
                         Some f \<Rightarrow> Inr (assignPatterns patterns f ex r, False)
                       | None \<Rightarrow> Inr (r\<lparr>desc := desc r @ token @ '' ''\<rparr>, False)))
               else if field = None then Inr (r\<lparr>desc := desc r @ token @ '' ''\<rparr>, False)
               else Inr (r, False)))"

function parseTokens :: "string list \<Rightarrow> ParsedResult \<Rightarrow> error + ParsedResult" where
  "parseTokens [] r = Inr r"
| "parseTokens (token # rest) r =
     (case processToken token (case rest of [] \<Rightarrow> None | n # _ \<Rightarrow> Some n) r of
        Inl e \<Rightarrow> Inl e
      | Inr (r', merged) \<Rightarrow> parseTokens (if merged then tl rest else rest) r')"
  by pat_completeness auto
termination
  by (relation "measure (\<lambda>(ts, r). length ts)") auto

definition parseInstruction :: "string \<Rightarrow> error + ParsedResult" where
  \<comment> \<open>the result the method leaves in \<^verbatim>\<open>this.result\<close>, which the constructor has just set
      to the empty result\<close>
  "parseInstruction instruction =
     (case parseTokens (tokenize instruction) emptyResult of
        Inl e \<Rightarrow> Inl e
      | Inr r \<Rightarrow> Inr (r\<lparr>desc := trim (desc r)\<rparr>))"

definition InstructionParser :: "string \<Rightarrow> error + ParsedResult" where
  \<comment> \<open>the constructor\<close>
  "InstructionParser instruction =
     (if trim instruction = [] then Inr emptyResult else parseInstruction instruction)"

section \<open>Filter expressions\<close>

text \<open>
  The objects both builders produce, as syntax trees. An operand is a string (a field path
  such as \<^verbatim>\<open>"$code"\<close>) or \<^verbatim>\<open>{ $concat: [...] }\<close>; \<open>Compare op a v\<close> is \<^verbatim>\<open>{ [op]: [a, v] }\<close>
  with \<open>op\<close> one of \<^verbatim>\<open>$eq\<close>, \<^verbatim>\<open>$gt\<close>, \<^verbatim>\<open>$lt\<close>, \<^verbatim>\<open>$gte\<close>, \<^verbatim>\<open>$lte\<close>; \<open>RegexMatch a r o\<close> is
  \<^verbatim>\<open>{ $regexMatch: { input: a, regex: r, options: o } }\<close>. A filter is the document under
  \<^verbatim>\<open>$match\<close>: \<^verbatim>\<open>{ $expr: e }\<close>, \<^verbatim>\<open>{ $nor: [...] }\<close>, \<^verbatim>\<open>{}\<close>, \<^verbatim>\<open>undefined\<close>, or (what one branch of
  \<^verbatim>\<open>ParserPipeline.buildItemsExpr\<close> returns) a document with the key \<^verbatim>\<open>$match\<close> itself.
\<close>

datatype Operand = Str string | Concat "string list"

datatype Expr =
    Compare string Operand string
  | RegexMatch Operand string string
  | And "Expr list"

datatype Filter =
    Expr Expr
  | Nor "Filter list"
  | MatchDoc Filter
  | EmptyDoc
  | Undefined

datatype Stage = Match Filter

definition mapOperator :: "ComparisonOperator \<Rightarrow> string" where
  \<comment> \<open>the same in both builders; the \<^verbatim>\<open>default\<close> branch (\<^verbatim>\<open>$eq\<close>) needs an operator outside
      the enum\<close>
  "mapOperator op = (case op of GT \<Rightarrow> ''$gt'' | LT \<Rightarrow> ''$lt'' | GTE \<Rightarrow> ''$gte'' | LTE \<Rightarrow> ''$lte'')"

definition concatInput :: "bool \<Rightarrow> string list" where
  \<comment> \<open>\<^verbatim>\<open>input\<close> in \<^verbatim>\<open>buildExprWithoutPrefix\<close>\<close>
  "concatInput isItemFull =
     (if isItemFull then [''$key.line.code'', ''$key.brand.code'', ''$code'']
      else [''$key.line.code'', ''$key.brand.code''])"

definition buildExprWithoutPrefix :: "Pattern \<Rightarrow> bool \<Rightarrow> Filter" where
  \<comment> \<open>the same in both builders; the \<^verbatim>\<open>default: return null\<close> branch needs a pattern outside
      the four variants\<close>
  "buildExprWithoutPrefix pattern isItemFull =
     (let input = Concat (concatInput isItemFull)
      in case pattern of
           ValuePattern v _ \<Rightarrow> Expr (Compare ''$eq'' input v)
         | RegexPattern v _ \<Rightarrow> Expr (RegexMatch input v ''i'')
         | ComparisonPattern op v _ \<Rightarrow> Expr (Compare (mapOperator op) input v)
         | RangePattern s e _ \<Rightarrow> Expr (And [Compare ''$gte'' input s, Compare ''$lte'' input e]))"

definition prefixRegex :: "string \<Rightarrow> Expr" where
  \<comment> \<open>the content of \<^verbatim>\<open>prefixExpr.$expr\<close> (\<^verbatim>\<open>buildPrefixExpr\<close> in the search builder)\<close>
  "prefixRegex p = RegexMatch (Concat [''$key.line.code'', ''$key.brand.code'']) p ''i''"

definition norPasses :: "('c \<Rightarrow> bool) \<Rightarrow> 'c list \<Rightarrow> bool" where
  \<comment> \<open>what the query engine does with \<^verbatim>\<open>{ $nor: clauses }\<close>: a document passes when it matches
      none of the clauses; \<open>matches\<close> says which clauses the document at hand matches\<close>
  "norPasses matches clauses = (\<forall>c \<in> set clauses. \<not> matches c)"

section \<open>SearchPipelineBuilder (\<^verbatim>\<open>searchBuilder.ts\<close>)\<close>

definition dollarExpr :: "Filter \<Rightarrow> Expr option" where
  \<comment> \<open>\<^verbatim>\<open>x.$expr\<close>; \<open>None\<close> is \<^verbatim>\<open>undefined\<close>\<close>
  "dollarExpr f = (case f of Expr e \<Rightarrow> Some e | _ \<Rightarrow> None)"

definition buildPrefixExpr :: "string \<Rightarrow> Filter option" where
  "buildPrefixExpr prefixValue = Some (Expr (prefixRegex prefixValue))"

definition buildMainExpr :: "Pattern \<Rightarrow> Filter option" where
  "buildMainExpr pattern =
     (case pattern of
        ValuePattern v _ \<Rightarrow> Some (Expr (Compare ''$eq'' (Str ''$code'') v))
      | RegexPattern v _ \<Rightarrow> Some (Expr (RegexMatch (Str ''$code'') v ''i''))
      | ComparisonPattern op v _ \<Rightarrow> Some (Expr (Compare (mapOperator op) (Str ''$code'') v))
      | RangePattern s e _ \<Rightarrow>
          Some (Expr (And [Compare ''$gte'' (Str ''$code'') s, Compare ''$lte'' (Str ''$code'') e])))"

definition buildSingleFieldExpr :: "Pattern \<Rightarrow> string \<Rightarrow> Filter option" where
  "buildSingleFieldExpr pattern fieldPath =
     (case pattern of
        ValuePattern v _ \<Rightarrow> Some (Expr (Compare ''$eq'' (Str fieldPath) v))
      | RegexPattern v _ \<Rightarrow> Some (Expr (RegexMatch (Str fieldPath) v ''i''))
      | ComparisonPattern op v _ \<Rightarrow> Some (Expr (Compare (mapOperator op) (Str fieldPath) v))
      | RangePattern s e _ \<Rightarrow>
          Some (Expr (And [Compare ''$gte'' (Str fieldPath) s, Compare ''$lte'' (Str fieldPath) e])))"

definition keyPrefixOf :: "Pattern \<Rightarrow> string option" where
  \<comment> \<open>\<^verbatim>\<open>pattern.keyPrefix\<close>\<close>
  "keyPrefixOf pattern =
     (case pattern of
        ValuePattern _ k \<Rightarrow> k | RegexPattern _ k \<Rightarrow> k
      | ComparisonPattern _ _ k \<Rightarrow> k | RangePattern _ _ k \<Rightarrow> k)"

definition buildItemExpr :: "Pattern \<Rightarrow> Filter option" where
  "buildItemExpr pattern =
     (case truthy (keyPrefixOf pattern) of
        Some prefix \<Rightarrow>
          (case (buildPrefixExpr prefix, buildMainExpr pattern) of
             (Some keyExpr, Some mainExpr) \<Rightarrow>
               (case (dollarExpr keyExpr, dollarExpr mainExpr) of
                  (Some keyPart, Some mainPart) \<Rightarrow> Some (Expr (And [keyPart, mainPart]))
                | _ \<Rightarrow> None)
           | _ \<Rightarrow> None)
      | None \<Rightarrow>
          (case pattern of
             ComparisonPattern _ _ _ \<Rightarrow> buildMainExpr pattern
           | RangePattern _ _ _ \<Rightarrow> buildMainExpr pattern
           | ValuePattern _ _ \<Rightarrow> Some (buildExprWithoutPrefix pattern True)
           | RegexPattern _ _ \<Rightarrow> Some (buildExprWithoutPrefix pattern True)))"

definition buildKeyExpr :: "Pattern \<Rightarrow> Filter option" where
  "buildKeyExpr pattern = Some (buildExprWithoutPrefix pattern False)"

definition buildLineExpr :: "Pattern \<Rightarrow> Filter option" where
  "buildLineExpr pattern = buildSingleFieldExpr pattern ''$key.line.code''"

definition buildBrandExpr :: "Pattern \<Rightarrow> Filter option" where
  "buildBrandExpr pattern = buildSingleFieldExpr pattern ''$key.brand.code''"

definition buildExpr :: "Pattern \<Rightarrow> PatternField \<Rightarrow> Filter option" where
  "buildExpr pattern fieldName =
     (case fieldName of
        Items \<Rightarrow> buildItemExpr pattern
      | Keys \<Rightarrow> buildKeyExpr pattern
      | Lines \<Rightarrow> buildLineExpr pattern
      | Brands \<Rightarrow> buildBrandExpr pattern)"

record FieldCondition =
  orClauses :: "Filter list option"
  norClauses :: "Filter list option"

definition notNull :: "Filter option list \<Rightarrow> Filter list" where
  \<comment> \<open>\<^verbatim>\<open>.filter((expr) => expr !== null)\<close>\<close>
  "notNull xs = List.map_filter (\<lambda>x. x) xs"

definition buildFieldCondition :: "ParsedFieldSet \<Rightarrow> PatternField \<Rightarrow> FieldCondition option" where
  \<comment> \<open>\<open>orClauses\<close> and \<open>norClauses\<close> are the keys \<^verbatim>\<open>$or\<close> and \<^verbatim>\<open>$nor\<close> of \<^verbatim>\<open>conditions\<close>\<close>
  "buildFieldCondition fieldPatterns fieldName =
     (if include fieldPatterns = [] \<and> exclude fieldPatterns = [] then None
      else
        (let orC = notNull (map (\<lambda>p. buildExpr p fieldName) (include fieldPatterns));
             norC = notNull (map (\<lambda>p. buildExpr p fieldName) (exclude fieldPatterns))
         in Some \<lparr>orClauses = (if include fieldPatterns \<noteq> [] \<and> orC \<noteq> [] then Some orC else None),
                  norClauses = (if exclude fieldPatterns \<noteq> [] \<and> norC \<noteq> [] then Some norC else None)\<rparr>))"

datatype SearchStage = MatchAnd "FieldCondition list"

definition buildSearchPipeline :: "ParsedResult \<Rightarrow> SearchStage list" where
  "buildSearchPipeline parsed =
     (let andConditions =
            List.map_filter (\<lambda>x. x)
              [buildFieldCondition (keys parsed) Keys, buildFieldCondition (items parsed) Items,
               buildFieldCondition (lines parsed) Lines, buildFieldCondition (brands parsed) Brands]
      in if andConditions \<noteq> [] then [MatchAnd andConditions] else [])"

section \<open>ParserPipeline (\<^verbatim>\<open>pipeline_builder.ts\<close>)\<close>

definition PP_determineField :: "string \<Rightarrow> PatternField" where
  \<comment> \<open>\<^verbatim>\<open>ParserPipeline.determineField\<close>\<close>
  "PP_determineField v =
     (if keysShape v then Keys
      else if linesShape v then Lines
      else if brandsShape v then Brands
      else Items)"

subsection \<open>Tokens\<close>

definition reservedWords :: "string list" where
  \<comment> \<open>what \<^verbatim>\<open>(ITEMS?|KEYS?|BRANDS?|BRAND|LINES?|ACC)\<close> matches\<close>
  "reservedWords =
     [''ITEM'', ''ITEMS'', ''KEY'', ''KEYS'', ''BRAND'', ''BRANDS'', ''LINE'', ''LINES'', ''ACC'']"

definition toUpperAscii :: "char \<Rightarrow> char" where
  \<comment> \<open>the \<^verbatim>\<open>i\<close> flag on ASCII letters: no other character of the model has an ASCII
      letter as its upper case\<close>
  "toUpperAscii c = (if isLower c then char_of (of_char c - (32::nat)) else c)"

definition reservedBracket :: "string \<Rightarrow> bool" where
  \<comment> \<open>\<^verbatim>\<open>/^\[(ITEMS?|KEYS?|BRANDS?|BRAND|LINES?|ACC)\]/i.test(val)\<close>\<close>
  "reservedBracket val =
     (\<exists>w \<in> set reservedWords. startsWith (map toUpperAscii val) (''['' @ w @ '']''))"

fun hasBracketGroup :: "string \<Rightarrow> bool" where
  \<comment> \<open>\<^verbatim>\<open>/\[.+\]/.test(val)\<close>: an opening bracket, at least one character and a closing bracket,
      with no line terminator in between\<close>
  "hasBracketGroup [] = False"
| "hasBracketGroup (c # r) =
     ((c = CHR ''['' \<and> CHR '']'' \<in> set (tl (takeWhile (\<lambda>x. \<not> isLineTerminator x) r)))
      \<or> hasBracketGroup r)"

definition isLikelyDynamic :: "string \<Rightarrow> bool" where
  "isLikelyDynamic val =
     (if reservedBracket val then False
      else if keysShape val \<or> linesShape val \<or> brandsShape val then True
      else CHR '':'' \<in> set val \<or> hasBracketGroup val)"

type_synonym Token = "string \<times> bool"
  \<comment> \<open>\<^verbatim>\<open>{ tokenStr, exclude }\<close>\<close>

fun tokenizeLoop :: "string list \<Rightarrow> Token list \<Rightarrow> string \<Rightarrow> Token list \<times> string" where
  \<comment> \<open>the loop of \<^verbatim>\<open>tokenizeInput\<close> over the parts, with \<^verbatim>\<open>tokens\<close> and \<^verbatim>\<open>desc\<close>\<close>
  "tokenizeLoop [] tokens dsc = (tokens, dsc)"
| "tokenizeLoop (part # parts) tokens dsc =
     (let (ex, val) = stripExclusion part
      in if reservedBracket val then tokenizeLoop parts tokens (dsc @ part @ '' '')
         else if isLikelyDynamic val
         then tokenizeLoop parts (tokens @ [(if ex then ''-'' @ val else val, ex)]) dsc
         else tokenizeLoop parts tokens (dsc @ part @ '' ''))"

definition tokenizeInput :: "string \<Rightarrow> Token list \<times> string" where
  "tokenizeInput input =
     (let (tokens, dsc) = tokenizeLoop (matchAll input) [] []
      in (tokens, toLowerCase (trim dsc)))"

subsection \<open>Compiling one token\<close>

datatype InstructionPatternData =
    PDComparison "string option" ComparisonOperator string
  | PDRange "string option" string string
  | PDRegex "string option" string "string option"
  | PDValue "string option" string

text \<open>
  The first argument of each variant is \<^verbatim>\<open>keyPrefix\<close>; the last one of \<open>PDRegex\<close> is
  \<^verbatim>\<open>extractedValue\<close>, \<open>Some\<close> when the object has the property.
\<close>

definition bracketOnly :: "string \<Rightarrow> string option" where
  \<comment> \<open>\<^verbatim>\<open>/^\w+:\[([^\]]+)\]$/\<close>: group 1\<close>
  "bracketOnly s =
     (case wordColon s of
        None \<Rightarrow> None
      | Some (w, r) \<Rightarrow>
          (let p = takeWhile (\<lambda>x. x \<noteq> CHR '']'') (tl r)
           in if startsWith r ''['' \<and> p \<noteq> [] \<and> dropWhile (\<lambda>x. x \<noteq> CHR '']'') (tl r) = '']''
              then Some p else None))"

definition allDigits :: "string \<Rightarrow> bool" where
  \<comment> \<open>the whole string is matched by \<^verbatim>\<open>\d+\<close>\<close>
  "allDigits s = (s \<noteq> [] \<and> (\<forall>c \<in> set s. isDigit c))"

definition operatorDigits :: "string \<Rightarrow> bool" where
  \<comment> \<open>\<^verbatim>\<open>/^([><]=?\d+)$/\<close>\<close>
  "operatorDigits s =
     (case s of
        [] \<Rightarrow> False
      | c # r \<Rightarrow> (c = CHR ''>'' \<or> c = CHR ''<'')
                 \<and> allDigits (if startsWith r ''='' then tl r else r))"

definition digitsRange :: "string \<Rightarrow> bool" where
  \<comment> \<open>\<^verbatim>\<open>/^\d+<>\d+$/\<close>\<close>
  "digitsRange s =
     (let a = takeWhile isDigit s; r = dropWhile isDigit s
      in a \<noteq> [] \<and> startsWith r ''<>'' \<and> allDigits (drop 2 r))"

definition digits1to4 :: "string \<Rightarrow> bool" where
  \<comment> \<open>\<^verbatim>\<open>/^\d{1,4}$/\<close>\<close>
  "digits1to4 s = (1 \<le> length s \<and> length s \<le> 4 \<and> (\<forall>c \<in> set s. isDigit c))"

definition hasRegexMeta :: "string \<Rightarrow> bool" where
  \<comment> \<open>\<^verbatim>\<open>/[*^$\\.+?]/\<close>\<close>
  "hasRegexMeta s =
     (\<exists>c \<in> set s. c = CHR ''*'' \<or> c = CHR ''^'' \<or> c = CHR ''$'' \<or> c = CHR 0x5C
                   \<or> c = CHR ''.'' \<or> c = CHR ''+'' \<or> c = CHR ''?'')"

definition resolveField :: "string \<Rightarrow> FieldValue option \<times> string" where
  \<comment> \<open>the alias part of \<^verbatim>\<open>parseSingleToken\<close>: \<^verbatim>\<open>field\<close> and \<^verbatim>\<open>tokenBody\<close> before the shape
      fallback; without quotes the body is replaced only for a known alias\<close>
  "resolveField tokenStr =
     (case fieldMatchQuoted tokenStr of
        Some (a, b) \<Rightarrow> (aliasLookup (toLowerCase a), b)
      | None \<Rightarrow>
          (case fieldMatch tokenStr of
             Some (a, b) \<Rightarrow>
               (case aliasLookup (toLowerCase a) of
                  Some f \<Rightarrow> (Some f, b)
                | None \<Rightarrow> (None, tokenStr))
           | None \<Rightarrow> (None, tokenStr)))"

definition classify ::
  "FieldValue \<Rightarrow> string option \<Rightarrow> string \<Rightarrow> (FieldValue \<times> InstructionPatternData) option" where
  \<comment> \<open>the end of \<^verbatim>\<open>parseSingleToken\<close>, from \<^verbatim>\<open>compMatch\<close> on: comparison, range, regex,
      literal value\<close>
  "classify field keyPrefix tokenBody =
     (case comparisonMatch tokenBody of
        Some (op, v) \<Rightarrow> Some (field, PDComparison keyPrefix op (pad4 v))
      | None \<Rightarrow>
          (case rangeMatch tokenBody of
             Some (s, e) \<Rightarrow> Some (field, PDRange keyPrefix (pad4 s) (pad4 e))
           | None \<Rightarrow>
               if hasRegexChar tokenBody \<or> quotedBy (CHR ''\"'') tokenBody
                  \<or> quotedBy (CHR 0x27) tokenBody
               then Some (field, PDRegex keyPrefix (stripQuotes tokenBody) None)
               else
                 (let literal = stripQuotes tokenBody
                  in if field = Known Keys \<and> \<not> keysShape literal then None
                     else if field = Known Items \<and> \<not> digits1to4 literal then None
                     else Some (field, PDValue keyPrefix literal))))"

definition parseSingleToken :: "string \<Rightarrow> (FieldValue \<times> InstructionPatternData) option" where
  \<comment> \<open>\<open>None\<close> is \<^verbatim>\<open>null\<close>\<close>
  "parseSingleToken tokenStr =
     (let (aliased, tokenBody) = resolveField tokenStr;
          field = (case aliased of Some f \<Rightarrow> f | None \<Rightarrow> Known (PP_determineField tokenBody))
      in if field \<noteq> Known Items \<and> keyPrefixMatch tokenBody \<noteq> None
         then Some (field, PDRegex None tokenBody None)
         else if (field = Known Brands \<or> field = Known Lines \<or> field = Known Keys)
                 \<and> bracketOnly tokenStr \<noteq> None
         then (case bracketOnly tokenStr of Some m \<Rightarrow> Some (field, PDRegex None m None)
               | None \<Rightarrow> None)
         else
           (case keyPrefixMatch tokenBody of
              Some (keyPrefix, extracted) \<Rightarrow>
                if field \<noteq> Known Items then None
                else if operatorDigits extracted \<or> digitsRange extracted \<or> digits1to4 extracted
                then classify field (Some keyPrefix) extracted
                else if hasRegexMeta extracted
                then Some (field, PDRegex None tokenStr (Some extracted))
                else None
            | None \<Rightarrow> classify field None tokenBody))"

subsection \<open>Building the match stage\<close>

definition pdKeyPrefix :: "InstructionPatternData \<Rightarrow> string option" where
  \<comment> \<open>\<^verbatim>\<open>pd.keyPrefix\<close>\<close>
  "pdKeyPrefix pd =
     (case pd of
        PDComparison k _ _ \<Rightarrow> k | PDRange k _ _ \<Rightarrow> k | PDRegex k _ _ \<Rightarrow> k | PDValue k _ \<Rightarrow> k)"

definition patternDataToPattern :: "InstructionPatternData \<Rightarrow> Pattern" where
  "patternDataToPattern pd =
     (let base = truthy (pdKeyPrefix pd)
      in case pd of
           PDComparison _ op v \<Rightarrow> ComparisonPattern op v base
         | PDRange _ s e \<Rightarrow> RangePattern s e base
         | PDRegex _ v _ \<Rightarrow> RegexPattern v base
         | PDValue _ v \<Rightarrow> ValuePattern v base)"

definition PP_buildSingleFieldExpr :: "InstructionPatternData \<Rightarrow> string \<Rightarrow> Filter" where
  \<comment> \<open>the final \<^verbatim>\<open>return {}\<close> needs a \<^verbatim>\<open>patternType\<close> outside the four\<close>
  "PP_buildSingleFieldExpr pd path =
     (case pd of
        PDComparison _ op v \<Rightarrow> Expr (Compare (mapOperator op) (Str path) v)
      | PDRange _ s e \<Rightarrow> Expr (And [Compare ''$gte'' (Str path) s, Compare ''$lte'' (Str path) e])
      | PDRegex _ v _ \<Rightarrow> Expr (RegexMatch (Str path) v ''i'')
      | PDValue _ v \<Rightarrow> Expr (Compare ''$eq'' (Str path) v))"

definition combinePrefixWithCode :: "Expr \<Rightarrow> InstructionPatternData \<Rightarrow> string \<Rightarrow> Filter" where
  \<comment> \<open>the first argument is \<^verbatim>\<open>prefixExpr.$expr\<close>, all the function reads of \<^verbatim>\<open>prefixExpr\<close>\<close>
  "combinePrefixWithCode prefixExpr pd codeField =
     (case pd of
        PDRegex _ v _ \<Rightarrow> Expr (And [prefixExpr, RegexMatch (Str codeField) v ''i''])
      | PDValue _ v \<Rightarrow> Expr (And [prefixExpr, Compare ''$eq'' (Str codeField) v])
      | _ \<Rightarrow> EmptyDoc)"

definition buildItemsExpr :: "InstructionPatternData \<Rightarrow> Filter" where
  "buildItemsExpr pd =
     (case (case pd of PDRegex _ _ ev \<Rightarrow> ev | _ \<Rightarrow> None) of
        Some extractedValue \<Rightarrow>
          MatchDoc (Expr (RegexMatch (Str ''$code'') extractedValue ''i''))
      | None \<Rightarrow>
          (case truthy (pdKeyPrefix pd) of
             Some keyPrefix \<Rightarrow>
               (let prefixExpr = prefixRegex keyPrefix
                in case pd of
                     PDComparison _ op v \<Rightarrow>
                       Expr (And [prefixExpr, Compare (mapOperator op) (Str ''$code'') v])
                   | PDRange _ s e \<Rightarrow>
                       Expr (And [prefixExpr, Compare ''$gte'' (Str ''$code'') s,
                                  Compare ''$lte'' (Str ''$code'') e])
                   | PDRegex _ v _ \<Rightarrow>
                       Expr (And [prefixExpr, RegexMatch (Str ''$code'') v ''i''])
                   | PDValue _ _ \<Rightarrow> combinePrefixWithCode prefixExpr pd ''$code'')
           | None \<Rightarrow>
               (case pd of
                  PDComparison _ op v \<Rightarrow> Expr (Compare (mapOperator op) (Str ''$code'') v)
                | PDRange _ s e \<Rightarrow>
                    Expr (And [Compare ''$gte'' (Str ''$code'') s, Compare ''$lte'' (Str ''$code'') e])
                | _ \<Rightarrow> buildExprWithoutPrefix (patternDataToPattern pd) True)))"

definition buildKeysExpr :: "InstructionPatternData \<Rightarrow> Filter" where
  "buildKeysExpr pd = buildExprWithoutPrefix (patternDataToPattern pd) False"

definition PP_buildLineExpr :: "InstructionPatternData \<Rightarrow> Filter" where
  "PP_buildLineExpr pd = PP_buildSingleFieldExpr pd ''$key.line.code''"

definition PP_buildBrandExpr :: "InstructionPatternData \<Rightarrow> Filter" where
  "PP_buildBrandExpr pd = PP_buildSingleFieldExpr pd ''$key.brand.code''"

definition createPositiveExpr :: "FieldValue \<Rightarrow> InstructionPatternData \<Rightarrow> Filter" where
  \<comment> \<open>the \<^verbatim>\<open>switch\<close> has no default: any other field falls through to \<^verbatim>\<open>undefined\<close>\<close>
  "createPositiveExpr field pd =
     (case field of
        Known Items \<Rightarrow> buildItemsExpr pd
      | Known Keys \<Rightarrow> buildKeysExpr pd
      | Known Lines \<Rightarrow> PP_buildLineExpr pd
      | Known Brands \<Rightarrow> PP_buildBrandExpr pd
      | ObjectConstructor \<Rightarrow> Undefined)"

definition buildStageFromData :: "FieldValue \<Rightarrow> InstructionPatternData \<Rightarrow> bool \<Rightarrow> Stage" where
  "buildStageFromData field pd ex =
     (let posExpr = createPositiveExpr field pd
      in if ex then Match (Nor [posExpr]) else Match posExpr)"

subsection \<open>The instruction cache\<close>

text \<open>
  \<^verbatim>\<open>instruction.model.ts\<close>: the collection of \<^verbatim>\<open>Instruction\<close> documents, with
  \<^verbatim>\<open>unique: true\<close> on \<^verbatim>\<open>token\<close>. The store is the list of its documents;
  \<^verbatim>\<open>InstructionModel.create\<close> fails with a duplicate-key error when a document with the
  same token is there, and \<^verbatim>\<open>InstructionModel.find({ token: { $in: keys } })\<close> returns the
  documents whose token is one of the keys. The field of a document is what
  \<^verbatim>\<open>parseSingleToken\<close> resolved.
\<close>

datatype InstructionType = Include | Exclude

record Instruction =
  token :: string
  field :: FieldValue
  type :: InstructionType
  patternData :: InstructionPatternData
  matchStage :: Stage

type_synonym Store = "Instruction list"

definition InstructionModel_create :: "Store \<Rightarrow> Instruction \<Rightarrow> (error + Instruction) \<times> Store" where
  "InstructionModel_create store doc =
     (if token doc \<in> set (map token store) then (Inl DuplicateKey, store)
      else (Inr doc, store @ [doc]))"

definition InstructionModel_find :: "Store \<Rightarrow> string list \<Rightarrow> Instruction list" where
  "InstructionModel_find store ks = filter (\<lambda>d. token d \<in> set ks) store"

definition toDocsMap :: "Instruction list \<Rightarrow> (string \<rightharpoonup> Instruction)" where
  \<comment> \<open>\<^verbatim>\<open>for (const doc of docs) docsMap.set(doc.token, doc)\<close>\<close>
  "toDocsMap docs = fold (\<lambda>d m. m(token d \<mapsto> d)) docs Map.empty"

definition parseAndStoreToken ::
  "Store \<Rightarrow> string \<Rightarrow> bool \<Rightarrow> (error + Instruction option) \<times> Store" where
  "parseAndStoreToken store rawToken wasExclude =
     (let (ex, tokenBody) =
            (if startsWith rawToken ''-'' then (True, drop 1 rawToken) else (wasExclude, rawToken))
      in case parseSingleToken tokenBody of
           None \<Rightarrow> (Inr None, store)
         | Some (fld, pd) \<Rightarrow>
             (case InstructionModel_create store
                     \<lparr>token = rawToken, field = fld,
                      type = (if ex then Exclude else Include), patternData = pd,
                      matchStage = buildStageFromData fld pd ex\<rparr> of
                (Inl e, store') \<Rightarrow> (Inl e, store')
              | (Inr doc, store') \<Rightarrow> (Inr (Some doc), store')))"

subsection \<open>Assembling the pipeline\<close>

text \<open>
  \<^verbatim>\<open>getPipelineForInstruction\<close>. The callbacks of \<^verbatim>\<open>tokens.map(async ...)\<close> run one after the
  other up to their first \<^verbatim>\<open>await\<close>, so the writes reach the store in token order, each
  against the store the earlier ones left; every callback reads the same \<^verbatim>\<open>docsMap\<close>, built
  before any of them runs. \<^verbatim>\<open>Promise.all\<close> rejects when one of them does, and the other
  writes still happen.
\<close>

definition processOne ::
  "(string \<rightharpoonup> Instruction) \<Rightarrow> Store \<Rightarrow> Token \<Rightarrow> (error + Instruction option) \<times> Store" where
  "processOne docsMap store tk =
     (case docsMap (fst tk) of
        Some doc \<Rightarrow> (Inr (Some doc), store)
      | None \<Rightarrow> parseAndStoreToken store (fst tk) (snd tk))"

fun processTokens ::
  "(string \<rightharpoonup> Instruction) \<Rightarrow> Store \<Rightarrow> Token list
   \<Rightarrow> (error + Instruction option list) \<times> Store" where
  "processTokens docsMap store [] = (Inr [], store)"
| "processTokens docsMap store (tk # tks) =
     (case processOne docsMap store tk of
        (r, store1) \<Rightarrow>
          (case processTokens docsMap store1 tks of
             (rs, store2) \<Rightarrow>
               (case r of
                  Inl e \<Rightarrow> (Inl e, store2)
                | Inr d \<Rightarrow>
                    (case rs of
                       Inl e \<Rightarrow> (Inl e, store2)
                     | Inr ds \<Rightarrow> (Inr (d # ds), store2)))))"

fun collect :: "Token list \<Rightarrow> Instruction option list \<Rightarrow> Instruction list \<times> string list" where
  \<comment> \<open>the loop that fills \<^verbatim>\<open>parseArray\<close> and \<^verbatim>\<open>nonDynamicTokens\<close>\<close>
  "collect (tk # tks) (Some res # rs) = (case collect tks rs of (pa, nd) \<Rightarrow> (res # pa, nd))"
| "collect (tk # tks) (None # rs) = (case collect tks rs of (pa, nd) \<Rightarrow> (pa, fst tk # nd))"
| "collect _ _ = ([], [])"

fun assemble :: "Instruction list \<Rightarrow> ParsedResult \<Rightarrow> Stage list \<Rightarrow> error + ParsedResult \<times> Stage list" where
  \<comment> \<open>the loop over \<^verbatim>\<open>parseArray\<close>; \<^verbatim>\<open>finalParsed[field]\<close> is \<^verbatim>\<open>undefined\<close> for a field that is
      none of the four\<close>
  "assemble [] finalParsed pipeline = Inr (finalParsed, pipeline)"
| "assemble (d # ds) finalParsed pipeline =
     (case field d of
        ObjectConstructor \<Rightarrow> Inl TypeError
      | Known f \<Rightarrow>
          assemble ds
            (assignPatterns [patternDataToPattern (patternData d)] f (type d = Exclude) finalParsed)
            (pipeline @ [matchStage d]))"

record ResultPipeline =
  parseResult :: ParsedResult
  pipeline :: "Stage list"

definition getPipelineForInstruction :: "Store \<Rightarrow> string \<Rightarrow> (error + ResultPipeline) \<times> Store" where
  "getPipelineForInstruction store input =
     (if trim input = [] then (Inr \<lparr>parseResult = emptyResult, pipeline = []\<rparr>, store)
      else
        (let (tokens, dsc) = tokenizeInput input;
             docsMap = toDocsMap (InstructionModel_find store (map fst tokens))
         in case processTokens docsMap store tokens of
              (Inl e, store') \<Rightarrow> (Inl e, store')
            | (Inr parseResults, store') \<Rightarrow>
                (let (parseArray, nonDynamicTokens) = collect tokens parseResults;
                     finalDesc = trim (dsc @ '' '' @ join '' '' nonDynamicTokens)
                 in case assemble parseArray (emptyResult\<lparr>desc := finalDesc\<rparr>) [] of
                      Inl e \<Rightarrow> (Inl e, store')
                    | Inr (finalParsed, stages) \<Rightarrow>
                        (Inr \<lparr>parseResult = finalParsed, pipeline = stages\<rparr>, store'))))"

section \<open>Counting entries\<close>

definition entries :: "ParsedResult \<Rightarrow> nat" where
  \<comment> \<open>how many patterns a result holds in its eight lists; not part of the program, used
      to say where the tokens went\<close>
  "entries r =
     length (include (keys r)) + length (exclude (keys r))
     + length (include (items r)) + length (exclude (items r))
     + length (include (lines r)) + length (exclude (lines r))
     + length (include (brands r)) + length (exclude (brands r))"

section \<open>Properties\<close>

subsection \<open>Comparison and range expressions\<close>





lemma lastSeparator_Some:
  "lastSeparator acc s = Some (a, b) \<Longrightarrow> acc @ s = a @ ''<>'' @ b \<and> a \<noteq> [] \<and> b \<noteq> []"
proof (induction s arbitrary: acc)
  case Nil
  then show ?case by simp
next
  case (Cons c r)
  show ?case
  proof (cases "lastSeparator (acc @ [c]) r")
    case (Some x)
    with Cons.prems have "lastSeparator (acc @ [c]) r = Some (a, b)" by simp
    from Cons.IH [OF this] show ?thesis by simp
  next
    case None
    with Cons.prems have c: "acc \<noteq> []" "c = CHR ''<''" "startsWith r ''>''" "tl r \<noteq> []" "a = acc" "b = tl r"
      by (auto split: if_splits)
    from c(3) have "r = CHR ''>'' # tl r" by (cases r) (auto simp: startsWith_def)
    with c show ?thesis by simp
  qed
qed


lemma rangeMatch_Some:
  "rangeMatch v = Some (a, b) \<Longrightarrow> v = a @ ''<>'' @ b \<and> a \<noteq> [] \<and> b \<noteq> []"
  using lastSeparator_Some [of "[]" v a b] by (auto simp: rangeMatch_def split: if_splits)



lemma wordColon_Some: "wordColon s = Some (w, r) \<Longrightarrow> s = w @ '':'' @ r"
proof -
  assume a: "wordColon s = Some (w, r)"
  then have w: "w = takeWhile isWord s" and r: "r = tl (dropWhile isWord s)"
    and sw: "startsWith (dropWhile isWord s) '':''"
    by (simp_all add: wordColon_def Let_def split: if_splits)
  from sw have "dropWhile isWord s = CHR '':'' # tl (dropWhile isWord s)"
    by (cases "dropWhile isWord s") (auto simp: startsWith_def)
  then have "s = takeWhile isWord s @ CHR '':'' # tl (dropWhile isWord s)"
    by (metis takeWhile_dropWhile_id)
  with w r show ?thesis by simp
qed

lemma fieldMatch_Some: "fieldMatch s = Some (a, b) \<Longrightarrow> s = a @ '':'' @ b \<and> dotPlus b"
  by (auto simp: fieldMatch_def split: option.splits if_splits dest: wordColon_Some)

lemma fieldMatchQuoted_Some:
  assumes "fieldMatchQuoted s = Some (a, b)"
  shows "\<exists>q1 q2. s = a @ '':'' @ [q1] @ b @ [q2]"
proof -
  from assms obtain r where w: "wordColon s = Some (a, r)" and l: "3 \<le> length r"
    and b: "b = butlast (tl r)"
    by (auto simp: fieldMatchQuoted_def split: option.splits if_splits)
  from l obtain c r' where r: "r = c # r'" and ne: "r' \<noteq> []" by (cases r) force+
  from ne have "r' = butlast r' @ [last r']" by simp
  with r ne have "r = hd r # butlast (tl r) @ [last r]" by simp
  with wordColon_Some [OF w] b have "s = a @ '':'' @ [hd r] @ b @ [last r]" by simp
  then show ?thesis by blast
qed

lemma keyPrefixMatch_Some:
  assumes "keyPrefixMatch s = Some (p, r)"
  shows "s = ''['' @ p @ '']'' @ r \<and> p \<noteq> [] \<and> dotPlus r"
proof -
  from assms obtain c s' where s: "s = c # s'" by (cases s) (auto simp: keyPrefixMatch_def)
  let ?q = "dropWhile (\<lambda>x. x \<noteq> CHR '']'') s'"
  from assms s have c: "c = CHR ''[''" and p: "p = takeWhile (\<lambda>x. x \<noteq> CHR '']'') s'"
    and pn: "p \<noteq> []" and q: "?q \<noteq> []" and r: "r = tl ?q" and d: "dotPlus r"
    by (auto simp: keyPrefixMatch_def Let_def split: if_splits)
  from q have "hd ?q = CHR '']''" using hd_dropWhile [of "\<lambda>x. x \<noteq> CHR '']''" s'] by simp
  with q have "?q = CHR '']'' # tl ?q" by (cases ?q) auto
  then have "s' = p @ CHR '']'' # r" unfolding p r by (metis takeWhile_dropWhile_id)
  with s c pn d show ?thesis by simp
qed

lemma resolveField_body:
  assumes "resolveField t = (fo, body)"
  shows "\<exists>pre post. t = pre @ body @ post"
proof (cases "fieldMatchQuoted t")
  case (Some x)
  obtain a b where x: "x = (a, b)" by (cases x)
  from Some x assms have "body = b" by (simp add: resolveField_def)
  with fieldMatchQuoted_Some [OF Some [unfolded x]] show ?thesis
    by (metis append.assoc)
next
  case None
  show ?thesis
  proof (cases "fieldMatch t")
    case Some2: (Some x)
    obtain a b where x: "x = (a, b)" by (cases x)
    from fieldMatch_Some [OF Some2 [unfolded x]] have t: "t = (a @ '':'') @ b @ []" by simp
    from None Some2 x assms have "body = b \<or> body = t"
      by (auto simp: resolveField_def split: option.splits)
    then show ?thesis
    proof
      assume "body = b" with t show ?thesis by blast
    next
      assume "body = t" then have "t = [] @ body @ []" by simp
      then show ?thesis by blast
    qed
  next
    case None2: None
    with None assms have "t = [] @ body @ []" by (simp add: resolveField_def)
    then show ?thesis by blast
  qed
qed


lemma classify_range:
  assumes "classify f k body = Some (f', PDRange k' s e)"
  shows "\<exists>a b. body = a @ ''<>'' @ b \<and> a \<noteq> [] \<and> b \<noteq> [] \<and> s = pad4 a \<and> e = pad4 b"
proof -
  from assms obtain a b where "rangeMatch body = Some (a, b)" and "s = pad4 a" "e = pad4 b"
    by (auto simp: classify_def Let_def split: option.splits if_splits)
  with rangeMatch_Some [of body a b] show ?thesis by auto
qed

lemma parseSingleToken_classified:
  assumes "parseSingleToken t = Some (f, pd)"
    and "(\<exists>k op x. pd = PDComparison k op x) \<or> (\<exists>k s e. pd = PDRange k s e)
         \<or> (\<exists>k v. pd = PDValue k v)"
  shows "\<exists>k body pre post. classify f k body = Some (f, pd) \<and> t = pre @ body @ post"
proof -
  obtain fo tokenBody where rf: "resolveField t = (fo, tokenBody)" by (cases "resolveField t")
  from resolveField_body [OF rf] obtain pre post where t: "t = pre @ tokenBody @ post" by blast
  define fld where "fld = (case fo of Some f \<Rightarrow> f | None \<Rightarrow> Known (PP_determineField tokenBody))"
  show ?thesis
  proof (cases "keyPrefixMatch tokenBody")
    case None
    with assms rf have c: "classify fld None tokenBody = Some (f, pd)"
      by (auto simp: parseSingleToken_def Let_def fld_def split: if_splits option.splits)
    then have "f = fld" by (auto simp: classify_def Let_def split: option.splits if_splits)
    with c t show ?thesis by blast
  next
    case (Some y)
    obtain p ex where y: "y = (p, ex)" by (cases y)
    from keyPrefixMatch_Some [OF Some [unfolded y]] have tb: "tokenBody = (''['' @ p @ '']'') @ ex" by simp
    from assms rf Some y have c: "classify fld (Some p) ex = Some (f, pd)"
      by (auto simp: parseSingleToken_def Let_def fld_def split: if_splits option.splits)
    then have "f = fld" by (auto simp: classify_def Let_def split: option.splits if_splits)
    moreover from t tb have "t = (pre @ ''['' @ p @ '']'') @ ex @ post" by simp
    ultimately show ?thesis using c by blast
  qed
qed


subsection \<open>Stages compiled under the items field\<close>

lemma buildItemExpr_prefix:
  assumes "truthy k = Some p"
  shows "buildItemExpr (ValuePattern v k)
           = Some (Expr (And [prefixRegex p, Compare ''$eq'' (Str ''$code'') v]))"
    and "buildItemExpr (RegexPattern v k)
           = Some (Expr (And [prefixRegex p, RegexMatch (Str ''$code'') v ''i'']))"
    and "buildItemExpr (ComparisonPattern op v k)
           = Some (Expr (And [prefixRegex p, Compare (mapOperator op) (Str ''$code'') v]))"
    and "buildItemExpr (RangePattern s e k)
           = Some (Expr (And [prefixRegex p,
                And [Compare ''$gte'' (Str ''$code'') s, Compare ''$lte'' (Str ''$code'') e]]))"
  using assms
  by (simp_all add: buildItemExpr_def keyPrefixOf_def buildPrefixExpr_def buildMainExpr_def
        dollarExpr_def)

lemma buildItemExpr_plain:
  assumes "truthy k = None"
  shows "buildItemExpr (ValuePattern v k)
           = Some (Expr (Compare ''$eq''
                (Concat [''$key.line.code'', ''$key.brand.code'', ''$code'']) v))"
    and "buildItemExpr (RegexPattern v k)
           = Some (Expr (RegexMatch
                (Concat [''$key.line.code'', ''$key.brand.code'', ''$code'']) v ''i''))"
    and "buildItemExpr (ComparisonPattern op v k)
           = Some (Expr (Compare (mapOperator op) (Str ''$code'') v))"
    and "buildItemExpr (RangePattern s e k)
           = Some (Expr (And [Compare ''$gte'' (Str ''$code'') s, Compare ''$lte'' (Str ''$code'') e]))"
  using assms
  by (simp_all add: buildItemExpr_def keyPrefixOf_def buildMainExpr_def
        buildExprWithoutPrefix_def concatInput_def)

lemma buildItemsExpr_prefix:
  assumes "truthy k = Some p"
  shows "buildItemsExpr (PDValue k v)
           = Expr (And [prefixRegex p, Compare ''$eq'' (Str ''$code'') v])"
    and "buildItemsExpr (PDRegex k v None)
           = Expr (And [prefixRegex p, RegexMatch (Str ''$code'') v ''i''])"
    and "buildItemsExpr (PDComparison k op v)
           = Expr (And [prefixRegex p, Compare (mapOperator op) (Str ''$code'') v])"
    and "buildItemsExpr (PDRange k s e)
           = Expr (And [prefixRegex p, Compare ''$gte'' (Str ''$code'') s,
                        Compare ''$lte'' (Str ''$code'') e])"
  using assms
  by (simp_all add: buildItemsExpr_def pdKeyPrefix_def combinePrefixWithCode_def)

lemma buildItemsExpr_plain:
  assumes "truthy k = None"
  shows "buildItemsExpr (PDValue k v)
           = Expr (Compare ''$eq'' (Concat [''$key.line.code'', ''$key.brand.code'', ''$code'']) v)"
    and "buildItemsExpr (PDRegex k v None)
           = Expr (RegexMatch (Concat [''$key.line.code'', ''$key.brand.code'', ''$code'']) v ''i'')"
    and "buildItemsExpr (PDComparison k op v) = Expr (Compare (mapOperator op) (Str ''$code'') v)"
    and "buildItemsExpr (PDRange k s e)
           = Expr (And [Compare ''$gte'' (Str ''$code'') s, Compare ''$lte'' (Str ''$code'') e])"
  using assms
  by (simp_all add: buildItemsExpr_def pdKeyPrefix_def patternDataToPattern_def
        buildExprWithoutPrefix_def concatInput_def)

text \<open>
  Claim C3. The four lemmas above show the shapes the claim states for every pattern of
  \<^verbatim>\<open>SearchPipelineBuilder.buildItemExpr\<close> and for every pattern data of
  \<^verbatim>\<open>ParserPipeline.buildItemsExpr\<close> that has no \<^verbatim>\<open>extractedValue\<close>. The branch for
  \<^verbatim>\<open>extractedValue\<close> breaks them: it returns \<^verbatim>\<open>{ $match: { $expr: ... } }\<close>, a document with a
  \<^verbatim>\<open>$match\<close> key of its own, where every other branch returns \<^verbatim>\<open>{ $expr: ... }\<close>, and
  \<^verbatim>\<open>buildStageFromData\<close> puts it under \<^verbatim>\<open>$match\<close> once more. For the token \<^verbatim>\<open>[XYZ]^AB.*\<close> the
  stage is \<^verbatim>\<open>{ $match: { $match: { $expr: ... } } }\<close> around a regex over \<^verbatim>\<open>$code\<close>, the
  bracket prefix is matched against nothing, and the parse result keeps the whole token as
  a regex without prefix. \<^verbatim>\<open>InstructionParser\<close> with \<^verbatim>\<open>SearchPipelineBuilder\<close> gives, for the
  same token, the conjunction of the prefix match over \<^verbatim>\<open>concat(line code, brand code)\<close> and
  the regex over \<^verbatim>\<open>$code\<close>, as the claim says; so does \<^verbatim>\<open>ParserPipeline\<close> itself for the same
  prefix before a comparison (\<^verbatim>\<open>[XYZ]>50\<close>).
\<close>

theorem C3_nested_match:
  "parseSingleToken ''[XYZ]^AB.*''
     = Some (Known Items, PDRegex None ''[XYZ]^AB.*'' (Some ''^AB.*''))
   \<and> buildStageFromData (Known Items) (PDRegex None ''[XYZ]^AB.*'' (Some ''^AB.*'')) False
     = Match (MatchDoc (Expr (RegexMatch (Str ''$code'') ''^AB.*'' ''i'')))
   \<and> fst (getPipelineForInstruction [] ''[XYZ]^AB.*'')
     = Inr \<lparr>parseResult = emptyResult\<lparr>items := \<lparr>include = [RegexPattern ''[XYZ]^AB.*'' None],
                                                    exclude = []\<rparr>\<rparr>,
            pipeline = [Match (MatchDoc (Expr (RegexMatch (Str ''$code'') ''^AB.*'' ''i'')))]\<rparr>
   \<and> InstructionParser ''[XYZ]^AB.*''
     = Inr (emptyResult\<lparr>items := \<lparr>include = [RegexPattern ''^AB.*'' (Some ''XYZ'')], exclude = []\<rparr>\<rparr>)
   \<and> buildItemExpr (RegexPattern ''^AB.*'' (Some ''XYZ''))
     = Some (Expr (And [RegexMatch (Concat [''$key.line.code'', ''$key.brand.code'']) ''XYZ'' ''i'',
                        RegexMatch (Str ''$code'') ''^AB.*'' ''i'']))
   \<and> buildSearchPipeline
       (emptyResult\<lparr>items := \<lparr>include = [RegexPattern ''^AB.*'' (Some ''XYZ'')], exclude = []\<rparr>\<rparr>)
     = [MatchAnd [\<lparr>orClauses = Some [Expr (And
                      [RegexMatch (Concat [''$key.line.code'', ''$key.brand.code'']) ''XYZ'' ''i'',
                       RegexMatch (Str ''$code'') ''^AB.*'' ''i''])],
                   norClauses = None\<rparr>]]
   \<and> parseSingleToken ''[XYZ]>50''
     = Some (Known Items, PDComparison (Some ''XYZ'') GT ''0050'')
   \<and> buildStageFromData (Known Items) (PDComparison (Some ''XYZ'') GT ''0050'') False
     = Match (Expr (And [RegexMatch (Concat [''$key.line.code'', ''$key.brand.code'']) ''XYZ'' ''i'',
                         Compare ''$gt'' (Str ''$code'') ''0050'']))"
  by code_simp

subsection \<open>Exclusion by NOR\<close>

lemma buildExpr_total: "\<exists>f. buildExpr p name = Some f"
proof -
  have i: "\<exists>f. buildItemExpr p = Some f"
    by (cases p; cases "truthy (keyPrefixOf p)")
       (simp_all add: buildItemExpr_def buildPrefixExpr_def buildMainExpr_def dollarExpr_def)
  have s: "\<exists>f. buildSingleFieldExpr p path = Some f" for path
    by (cases p) (simp_all add: buildSingleFieldExpr_def)
  show ?thesis
    using i s by (cases name) (simp_all add: buildExpr_def buildKeyExpr_def buildLineExpr_def buildBrandExpr_def)
qed

lemma notNull_all:
  "(\<forall>x \<in> set xs. \<exists>f. g x = Some f) \<Longrightarrow> map Some (notNull (map g xs)) = map g xs"
  by (induction xs) (auto simp: notNull_def)

lemma norClauses_of_exclude:
  assumes "exclude fs \<noteq> []"
  shows "\<exists>c cs. buildFieldCondition fs name = Some c \<and> norClauses c = Some cs
           \<and> map Some cs = map (\<lambda>p. buildExpr p name) (exclude fs)"
proof -
  let ?cs = "notNull (map (\<lambda>p. buildExpr p name) (exclude fs))"
  have m: "map Some ?cs = map (\<lambda>p. buildExpr p name) (exclude fs)"
    by (rule notNull_all) (simp add: buildExpr_total)
  with assms have ne: "?cs \<noteq> []" by (metis map_is_Nil_conv)
  from assms ne m show ?thesis by (simp add: buildFieldCondition_def Let_def)
qed

lemma norPasses_compiled:
  assumes "map Some cs = map (\<lambda>p. buildExpr p name) ps"
  shows "norPasses m cs \<longleftrightarrow> (\<forall>p \<in> set ps. \<forall>f. buildExpr p name = Some f \<longrightarrow> \<not> m f)"
proof -
  from assms have "Some ` set cs = (\<lambda>p. buildExpr p name) ` set ps"
    by (metis set_map)
  then have "\<And>f. f \<in> set cs \<longleftrightarrow> (\<exists>p \<in> set ps. buildExpr p name = Some f)"
    by (metis (no_types, lifting) image_iff option.inject)
  then show ?thesis by (auto simp: norPasses_def)
qed

text \<open>
  Claim C4. For a field whose exclude list is not empty, \<^verbatim>\<open>buildFieldCondition\<close> puts the
  compiled expressions of all its excluded patterns, none left out, under one \<^verbatim>\<open>$nor\<close>, so
  a document passes exactly when it matches none of them; \<^verbatim>\<open>buildStageFromData\<close> wraps the
  positive expression of an excluded token in a \<^verbatim>\<open>$nor\<close> of its own. The leaves are not
  negated. \<^verbatim>\<open>-items:0050\<close> gives one entry in \<^verbatim>\<open>items.exclude\<close>, compiled under \<^verbatim>\<open>$nor\<close> by
  both builders.
\<close>

theorem C4_exclusion_nor:
  "(exclude fs \<noteq> [] \<longrightarrow>
      (\<exists>c cs. buildFieldCondition fs name = Some c \<and> norClauses c = Some cs
         \<and> map Some cs = map (\<lambda>p. buildExpr p name) (exclude fs)
         \<and> (norPasses m cs \<longleftrightarrow> (\<forall>p \<in> set (exclude fs). \<forall>f. buildExpr p name = Some f \<longrightarrow> \<not> m f))))
   \<and> buildStageFromData fld pd True = Match (Nor [createPositiveExpr fld pd])
   \<and> (norPasses m [createPositiveExpr fld pd] \<longleftrightarrow> \<not> m (createPositiveExpr fld pd))
   \<and> parseInstruction ''-items:0050''
       = Inr (emptyResult\<lparr>items := \<lparr>include = [], exclude = [ValuePattern ''0050'' None]\<rparr>\<rparr>)
   \<and> buildFieldCondition \<lparr>include = [], exclude = [ValuePattern ''0050'' None]\<rparr> Items
       = Some \<lparr>orClauses = None,
               norClauses = Some [Expr (Compare ''$eq''
                 (Concat [''$key.line.code'', ''$key.brand.code'', ''$code'']) ''0050'')]\<rparr>
   \<and> fst (getPipelineForInstruction [] ''-items:0050'')
       = Inr \<lparr>parseResult =
                emptyResult\<lparr>items := \<lparr>include = [], exclude = [ValuePattern ''0050'' None]\<rparr>\<rparr>,
              pipeline = [Match (Nor [Expr (Compare ''$eq''
                 (Concat [''$key.line.code'', ''$key.brand.code'', ''$code'']) ''0050'')])]\<rparr>"
proof (intro conjI impI)
  assume a: "exclude fs \<noteq> []"
  from norClauses_of_exclude [OF a, of name] obtain c cs where
    c: "buildFieldCondition fs name = Some c" "norClauses c = Some cs"
       "map Some cs = map (\<lambda>p. buildExpr p name) (exclude fs)" by blast
  from norPasses_compiled [OF c(3), of m] c
  show "\<exists>c cs. buildFieldCondition fs name = Some c \<and> norClauses c = Some cs
         \<and> map Some cs = map (\<lambda>p. buildExpr p name) (exclude fs)
         \<and> (norPasses m cs \<longleftrightarrow> (\<forall>p \<in> set (exclude fs). \<forall>f. buildExpr p name = Some f \<longrightarrow> \<not> m f))"
    by blast
next
  show "buildStageFromData fld pd True = Match (Nor [createPositiveExpr fld pd])"
    by (simp add: buildStageFromData_def)
next
  show "norPasses m [createPositiveExpr fld pd] \<longleftrightarrow> \<not> m (createPositiveExpr fld pd)"
    by (simp add: norPasses_def)
next
  show "parseInstruction ''-items:0050''
       = Inr (emptyResult\<lparr>items := \<lparr>include = [], exclude = [ValuePattern ''0050'' None]\<rparr>\<rparr>)"
    by code_simp
next
  show "buildFieldCondition \<lparr>include = [], exclude = [ValuePattern ''0050'' None]\<rparr> Items
       = Some \<lparr>orClauses = None,
               norClauses = Some [Expr (Compare ''$eq''
                 (Concat [''$key.line.code'', ''$key.brand.code'', ''$code'']) ''0050'')]\<rparr>"
    by code_simp
next
  show "fst (getPipelineForInstruction [] ''-items:0050'')
       = Inr \<lparr>parseResult =
                emptyResult\<lparr>items := \<lparr>include = [], exclude = [ValuePattern ''0050'' None]\<rparr>\<rparr>,
              pipeline = [Match (Nor [Expr (Compare ''$eq''
                 (Concat [''$key.line.code'', ''$key.brand.code'', ''$code'']) ''0050'')])]\<rparr>"
    by code_simp
qed

theorem C4_exclusion_nor_witness:
  "\<exists>c cs. buildFieldCondition \<lparr>include = [], exclude = [ValuePattern ''0050'' None, RegexPattern ''^9'' None]\<rparr> Items = Some c
      \<and> norClauses c = Some cs
      \<and> map Some cs = map (\<lambda>p. buildExpr p Items) [ValuePattern ''0050'' None, RegexPattern ''^9'' None]"
proof -
  let ?fs = "\<lparr>include = [], exclude = [ValuePattern ''0050'' None, RegexPattern ''^9'' None]\<rparr>"
  have h: "exclude ?fs \<noteq> []" by simp
  from C4_exclusion_nor [where fs = ?fs and name = Items and m = "\<lambda>_. False",
      THEN conjunct1, THEN mp, OF h]
  obtain c cs where "buildFieldCondition ?fs Items = Some c" "norClauses c = Some cs"
    "map Some cs = map (\<lambda>p. buildExpr p Items) (exclude ?fs)" by blast
  then show ?thesis by simp
qed

subsection \<open>The cache write\<close>

lemma count_one:
  "distinct (map token st) \<Longrightarrow> raw \<in> set (map token st)
   \<Longrightarrow> length (filter (\<lambda>d. token d = raw) st) = 1"
proof (induction st)
  case Nil
  then show ?case by simp
next
  case (Cons d st)
  show ?case
  proof (cases "token d = raw")
    case True
    with Cons.prems have "raw \<notin> set (map token st)" by auto
    then have "filter (\<lambda>d. token d = raw) st = []" by (auto simp: filter_empty_conv)
    with True show ?thesis by simp
  next
    case False
    with Cons show ?thesis by auto
  qed
qed

lemma count_none:
  "raw \<notin> set (map token st) \<Longrightarrow> filter (\<lambda>d. token d = raw) st = []"
  by (auto simp: filter_empty_conv)

lemma parseAndStoreToken_compiled:
  assumes "parseSingleToken (if startsWith raw ''-'' then drop 1 raw else raw) = Some (fld, pd)"
  shows "parseAndStoreToken store raw we =
           (case InstructionModel_create store
                   \<lparr>token = raw, field = fld,
                    type = (if startsWith raw ''-'' \<or> we then Exclude else Include),
                    patternData = pd,
                    matchStage = buildStageFromData fld pd (startsWith raw ''-'' \<or> we)\<rparr> of
              (Inl e, store') \<Rightarrow> (Inl e, store')
            | (Inr doc, store') \<Rightarrow> (Inr (Some doc), store'))"
  using assms by (auto simp: parseAndStoreToken_def)

text \<open>
  Claim C1, as stated, fails: \<^verbatim>\<open>parseAndStoreToken\<close> awaits \<^verbatim>\<open>InstructionModel.create\<close> with
  nothing around it that catches. When the token has been persisted since the batch read
  missed it (by a concurrent request, or by an earlier occurrence of the same token in the
  same instruction), the duplicate-key error is what the call returns.
\<close>

theorem C1_counterexample:
  "parseSingleToken ''ABC'' = Some (Known Lines, PDValue None ''ABC'')
   \<and> parseAndStoreToken
        [\<lparr>token = ''ABC'', field = Known Lines, type = Include, patternData = PDValue None ''ABC'',
          matchStage = Match (Expr (Compare ''$eq'' (Str ''$key.line.code'') ''ABC''))\<rparr>]
        ''ABC'' False
       = (Inl DuplicateKey,
          [\<lparr>token = ''ABC'', field = Known Lines, type = Include, patternData = PDValue None ''ABC'',
            matchStage = Match (Expr (Compare ''$eq'' (Str ''$key.line.code'') ''ABC''))\<rparr>])
   \<and> fst (getPipelineForInstruction [] ''ABC ABC'') = Inl DuplicateKey"
  by code_simp

text \<open>
  Claim C1, amended. For a token whose compilation succeeds: when no entry with its key is
  in the store, \<^verbatim>\<open>parseAndStoreToken\<close> inserts the compiled instruction, keyed by the exact
  token string, and returns it; when there is one, the duplicate-key error is returned and
  the store is unchanged. Either way a store with at most one entry per token stays so,
  and holds exactly one entry with this token afterwards.
\<close>

theorem C1_cache_write:
  assumes "parseSingleToken (if startsWith raw ''-'' then drop 1 raw else raw) = Some (fld, pd)"
  shows "(raw \<notin> set (map token store) \<longrightarrow>
            parseAndStoreToken store raw we =
              (Inr (Some \<lparr>token = raw, field = fld,
                          type = (if startsWith raw ''-'' \<or> we then Exclude else Include),
                          patternData = pd,
                          matchStage = buildStageFromData fld pd (startsWith raw ''-'' \<or> we)\<rparr>),
               store @ [\<lparr>token = raw, field = fld,
                          type = (if startsWith raw ''-'' \<or> we then Exclude else Include),
                          patternData = pd,
                          matchStage = buildStageFromData fld pd (startsWith raw ''-'' \<or> we)\<rparr>]))
       \<and> (raw \<in> set (map token store) \<longrightarrow>
            parseAndStoreToken store raw we = (Inl DuplicateKey, store))
       \<and> (distinct (map token store) \<longrightarrow>
            distinct (map token (snd (parseAndStoreToken store raw we)))
            \<and> length (filter (\<lambda>d. token d = raw) (snd (parseAndStoreToken store raw we))) = 1)"
proof (intro conjI impI)
  assume "raw \<notin> set (map token store)"
  then show "parseAndStoreToken store raw we =
              (Inr (Some \<lparr>token = raw, field = fld,
                          type = (if startsWith raw ''-'' \<or> we then Exclude else Include),
                          patternData = pd,
                          matchStage = buildStageFromData fld pd (startsWith raw ''-'' \<or> we)\<rparr>),
               store @ [\<lparr>token = raw, field = fld,
                          type = (if startsWith raw ''-'' \<or> we then Exclude else Include),
                          patternData = pd,
                          matchStage = buildStageFromData fld pd (startsWith raw ''-'' \<or> we)\<rparr>])"
    unfolding parseAndStoreToken_compiled [OF assms] by (simp add: InstructionModel_create_def)
next
  assume "raw \<in> set (map token store)"
  then show "parseAndStoreToken store raw we = (Inl DuplicateKey, store)"
    unfolding parseAndStoreToken_compiled [OF assms] by (simp add: InstructionModel_create_def)
next
  assume d: "distinct (map token store)"
  then show "distinct (map token (snd (parseAndStoreToken store raw we)))"
    unfolding parseAndStoreToken_compiled [OF assms] by (simp add: InstructionModel_create_def)
next
  assume d: "distinct (map token store)"
  show "length (filter (\<lambda>d. token d = raw) (snd (parseAndStoreToken store raw we))) = 1"
  proof (cases "raw \<in> set (map token store)")
    case True
    with count_one [OF d True] show ?thesis
      unfolding parseAndStoreToken_compiled [OF assms] by (simp add: InstructionModel_create_def)
  next
    case False
    with count_none [OF False] show ?thesis
      unfolding parseAndStoreToken_compiled [OF assms] by (simp add: InstructionModel_create_def)
  qed
qed

theorem C1_cache_write_witness:
  "parseAndStoreToken [] ''-items:0050'' True =
     (Inr (Some \<lparr>token = ''-items:0050'', field = Known Items,
                 type = (if startsWith ''-items:0050'' ''-'' \<or> True then Exclude else Include),
                 patternData = PDValue None ''0050'',
                 matchStage = buildStageFromData (Known Items) (PDValue None ''0050'')
                                (startsWith ''-items:0050'' ''-'' \<or> True)\<rparr>),
      [] @ [\<lparr>token = ''-items:0050'', field = Known Items,
                 type = (if startsWith ''-items:0050'' ''-'' \<or> True then Exclude else Include),
                 patternData = PDValue None ''0050'',
                 matchStage = buildStageFromData (Known Items) (PDValue None ''0050'')
                                (startsWith ''-items:0050'' ''-'' \<or> True)\<rparr>])
   \<and> length (filter (\<lambda>d. token d = ''-items:0050'')
         (snd (parseAndStoreToken [] ''-items:0050'' True))) = 1"
proof -
  have h: "parseSingleToken (if startsWith ''-items:0050'' ''-'' then drop 1 ''-items:0050''
             else ''-items:0050'') = Some (Known Items, PDValue None ''0050'')"
    by code_simp
  have n: "''-items:0050'' \<notin> set (map token [])" by simp
  have d: "distinct (map token ([] :: Store))" by simp
  note t = C1_cache_write [OF h, where store = "[]" and we = True]
  show ?thesis
    apply (intro conjI)
     apply (rule t [THEN conjunct1, THEN mp, OF n])
    apply (rule t [THEN conjunct2, THEN conjunct2, THEN mp, OF d, THEN conjunct2])
    done
qed

subsection \<open>Strings, parts and tokens\<close>

lemma isWord_not_space: "isWord c \<Longrightarrow> \<not> isSpace c"
  by (auto simp: isWord_def isSpace_def isUpper_def isLower_def isDigit_def)

lemma isQuote_not_space: "isQuote c \<Longrightarrow> \<not> isSpace c"
  by (auto simp: isQuote_def isSpace_def)

lemma dropWhile_keeps:
  "p \<noteq> [] \<Longrightarrow> \<not> P (hd p) \<Longrightarrow> \<exists>pre'. dropWhile P (pre @ p @ post) = pre' @ p @ post"
proof (induction pre)
  case Nil
  then have "dropWhile P (p @ post) = p @ post" by (cases p) auto
  then show ?case by (metis append_Nil)
next
  case (Cons a pre)
  show ?case
  proof (cases "P a")
    case True
    with Cons show ?thesis by simp
  next
    case False
    then have "dropWhile P ((a # pre) @ p @ post) = (a # pre) @ p @ post" by simp
    then show ?thesis by blast
  qed
qed

lemma trim_keeps:
  assumes "p \<noteq> []" "\<not> isSpace (hd p)" "\<not> isSpace (last p)"
  shows "\<exists>pre' post'. trim (pre @ p @ post) = pre' @ p @ post'"
proof -
  from dropWhile_keeps [where P = isSpace, OF assms(1,2)] obtain pre' where
    a: "dropWhile isSpace (pre @ p @ post) = pre' @ p @ post" by blast
  have rp: "rev p \<noteq> []" "\<not> isSpace (hd (rev p))" using assms by (simp_all add: hd_rev)
  from dropWhile_keeps [where P = isSpace, OF rp, of "rev post" "rev pre'"] obtain q where
    b: "dropWhile isSpace (rev post @ rev p @ rev pre') = q @ rev p @ rev pre'" by blast
  have "trim (pre @ p @ post) = rev (dropWhile isSpace (rev post @ rev p @ rev pre'))"
    by (simp add: trim_def a)
  also have "\<dots> = pre' @ p @ rev q" by (simp add: b)
  finally show ?thesis by blast
qed

lemma concat_contains:
  "x \<in> set xs \<Longrightarrow> \<exists>pre post. concat (map f xs) = pre @ f x @ post"
proof (induction xs)
  case Nil
  then show ?case by simp
next
  case (Cons a xs)
  show ?case
  proof (cases "x = a")
    case True
    then have "concat (map f (a # xs)) = [] @ f x @ concat (map f xs)" by simp
    then show ?thesis by blast
  next
    case False
    with Cons obtain pre post where "concat (map f xs) = pre @ f x @ post" by auto
    then have "concat (map f (a # xs)) = (f a @ pre) @ f x @ post" by simp
    then show ?thesis by blast
  qed
qed

lemma join_contains:
  assumes "x \<in> set xs"
  shows "\<exists>pre post. join sep xs = pre @ x @ post"
proof (cases xs)
  case Nil
  with assms show ?thesis by simp
next
  case (Cons a r)
  show ?thesis
  proof (cases "x = a")
    case True
    with Cons have "join sep xs = [] @ x @ concat (map (\<lambda>y. sep @ y) r)" by (simp add: join_def)
    then show ?thesis by blast
  next
    case False
    with assms Cons have "x \<in> set r" by simp
    from concat_contains [OF this, of "\<lambda>y. sep @ y"] obtain pre post where
      "concat (map (\<lambda>y. sep @ y) r) = pre @ (sep @ x) @ post" by blast
    with Cons have "join sep xs = (a @ pre @ sep) @ x @ post" by (simp add: join_def)
    then show ?thesis by blast
  qed
qed

lemma matchAt_part:
  assumes "matchAt s = Some (m, r)"
  shows "m \<noteq> [] \<and> \<not> isSpace (hd m) \<and> \<not> isSpace (last m)"
proof -
  have qa: "m \<noteq> [] \<and> \<not> isSpace (hd m) \<and> \<not> isSpace (last m)"
    if a: "quotedAlternative q s = Some (m, r)" and q: "isQuote q" for q
  proof -
    from a obtain w r0 where w: "wordColon s = Some (w, r0)"
      by (auto simp: quotedAlternative_def split: option.splits)
    from w have wne: "w \<noteq> []" and wd: "w = takeWhile isWord s"
      by (auto simp: wordColon_def Let_def split: if_splits)
    from wne wd have "isWord (hd w)"
      by (metis hd_in_set set_takeWhileD)
    then have h: "\<not> isSpace (hd w)" by (rule isWord_not_space)
    from a w obtain b where m: "m = w @ '':'' @ [q] @ b @ [q]"
      by (auto simp: quotedAlternative_def Let_def split: if_splits)
    from m wne have "hd m = hd w" "last m = q" "m \<noteq> []" by simp_all
    with h isQuote_not_space [OF q] show ?thesis by simp
  qed
  have ns: "m \<noteq> [] \<and> \<not> isSpace (hd m) \<and> \<not> isSpace (last m)"
    if a: "nonSpaceRun s = Some (m, r)"
  proof -
    from a have m: "m = takeWhile (\<lambda>x. \<not> isSpace x) s" and ne: "m \<noteq> []"
      by (auto simp: nonSpaceRun_def Let_def split: if_splits)
    from m have "\<forall>c \<in> set m. \<not> isSpace c" by (metis set_takeWhileD)
    with ne show ?thesis by simp
  qed
  have q1: "isQuote (CHR ''\"'')" and q2: "isQuote (CHR 0x27)" by (simp_all add: isQuote_def)
  from assms qa [OF _ q1] qa [OF _ q2] ns show ?thesis
    by (auto simp: matchAt_def split: option.splits)
qed

lemma matchAll_parts:
  "p \<in> set (matchAll s) \<Longrightarrow> p \<noteq> [] \<and> \<not> isSpace (hd p) \<and> \<not> isSpace (last p)"
proof (induction s rule: matchAll.induct)
  case (1 s)
  show ?case
  proof (cases "s = []")
    case True
    with "1.prems" show ?thesis by (simp add: matchAll.simps)
  next
    case False
    show ?thesis
    proof (cases "matchAt s")
      case None
      with False "1.prems" have "p \<in> set (matchAll (tl s))" by (simp add: matchAll.simps [of s])
      with "1.IH"(1) [OF False None] show ?thesis by simp
    next
      case (Some x)
      obtain m r where x: "x = (m, r)" by (cases x)
      with False Some "1.prems" have "p = m \<or> p \<in> set (matchAll r)"
        by (simp add: matchAll.simps [of s])
      then show ?thesis
      proof
        assume "p = m" with matchAt_part [OF Some [unfolded x]] show ?thesis by simp
      next
        assume "p \<in> set (matchAll r)"
        with "1.IH"(2) [OF False Some x [symmetric]] show ?thesis by simp
      qed
    qed
  qed
qed

lemma stripExclusion_part:
  "stripExclusion part = (ex, val) \<Longrightarrow> (if ex then ''-'' @ val else val) = part"
proof -
  assume a: "stripExclusion part = (ex, val)"
  show ?thesis
  proof (cases "startsWith part ''-''")
    case True
    then have "part = CHR ''-'' # drop 1 part" by (cases part) (auto simp: startsWith_def)
    with a True show ?thesis by (auto simp: stripExclusion_def)
  next
    case False
    with a show ?thesis by (auto simp: stripExclusion_def)
  qed
qed

lemma reserved_not_dynamic: "reservedBracket val \<Longrightarrow> \<not> isLikelyDynamic val"
  by (simp add: isLikelyDynamic_def)

lemma tokenizeLoop_eq:
  "tokenizeLoop parts toks d =
     (toks @ map (\<lambda>p. (p, fst (stripExclusion p)))
               (filter (\<lambda>p. isLikelyDynamic (snd (stripExclusion p))) parts),
      d @ concat (map (\<lambda>p. p @ '' '')
               (filter (\<lambda>p. \<not> isLikelyDynamic (snd (stripExclusion p))) parts)))"
proof (induction parts arbitrary: toks d)
  case Nil
  then show ?case by simp
next
  case (Cons part parts)
  obtain ex val where sv: "stripExclusion part = (ex, val)" by (cases "stripExclusion part")
  note sp = stripExclusion_part [OF sv]
  show ?case
  proof (cases "isLikelyDynamic val")
    case True
    then have "\<not> reservedBracket val" using reserved_not_dynamic by blast
    with True sv sp Cons show ?thesis by simp
  next
    case False
    with sv Cons show ?thesis by (cases "reservedBracket val") simp_all
  qed
qed

lemma toLowerChar_not_space: "\<not> isSpace c \<Longrightarrow> \<not> isSpace (toLowerChar c)"
proof -
  assume a: "\<not> isSpace c"
  show ?thesis
  proof (cases "isUpper c \<or> (CHR 0xC0 \<le> c \<and> c \<le> CHR 0xDE \<and> c \<noteq> CHR 0xD7)")
    case False
    with a show ?thesis by (auto simp: toLowerChar_def)
  next
    case True
    then have r: "65 \<le> (of_char c :: nat) \<and> (of_char c :: nat) \<le> 90
                 \<or> 192 \<le> (of_char c :: nat) \<and> (of_char c :: nat) \<le> 222"
      by (auto simp: isUpper_def less_eq_char_def)
    then have lt: "of_char c + (32::nat) < 256" by auto
    have "of_char (toLowerChar c) = (of_char c + 32 :: nat)"
      using True lt by (simp add: toLowerChar_def)
    with r have "(97::nat) \<le> of_char (toLowerChar c) \<and> of_char (toLowerChar c) \<noteq> (160::nat)"
      by auto
    then show ?thesis by (auto simp: isSpace_def)
  qed
qed

subsection \<open>The store along the pipeline\<close>

lemma body_eq: "snd (stripExclusion raw) = (if startsWith raw ''-'' then drop 1 raw else raw)"
  by (simp add: stripExclusion_def)

lemma parseAndStoreToken_null:
  "parseSingleToken (snd (stripExclusion raw)) = None
   \<Longrightarrow> parseAndStoreToken store raw we = (Inr None, store)"
  by (cases "startsWith raw ''-''") (simp_all add: parseAndStoreToken_def body_eq)

lemma parseAndStoreToken_store:
  assumes "parseAndStoreToken store raw we = (r, store')"
  shows "store' = store
         \<or> (parseSingleToken (snd (stripExclusion raw)) \<noteq> None
            \<and> (\<exists>doc. store' = store @ [doc] \<and> token doc = raw))"
proof (cases "parseSingleToken (snd (stripExclusion raw))")
  case None
  with assms show ?thesis by (simp add: parseAndStoreToken_null)
next
  case (Some x)
  obtain fld pd where x: "x = (fld, pd)" by (cases x)
  from Some x assms show ?thesis
    by (auto simp: parseAndStoreToken_def body_eq InstructionModel_create_def split: if_splits)
qed

lemma processOne_store:
  assumes "processOne docs store tk = (r, store')"
  shows "store' = store
         \<or> (parseSingleToken (snd (stripExclusion (fst tk))) \<noteq> None
            \<and> (\<exists>doc. store' = store @ [doc] \<and> token doc = fst tk))"
proof (cases "docs (fst tk)")
  case None
  with assms have "parseAndStoreToken store (fst tk) (snd tk) = (r, store')"
    by (simp add: processOne_def)
  then show ?thesis by (rule parseAndStoreToken_store)
next
  case (Some d)
  with assms show ?thesis by (simp add: processOne_def)
qed

lemma processTokens_store:
  "processTokens docs store tks = (r, store') \<Longrightarrow> d \<in> set store'
   \<Longrightarrow> d \<in> set store
       \<or> (\<exists>tk \<in> set tks. token d = fst tk \<and> parseSingleToken (snd (stripExclusion (fst tk))) \<noteq> None)"
proof (induction tks arbitrary: store r store')
  case Nil
  then show ?case by simp
next
  case (Cons tk tks)
  obtain r1 store1 where p1: "processOne docs store tk = (r1, store1)"
    by (cases "processOne docs store tk")
  obtain rs store2 where p2: "processTokens docs store1 tks = (rs, store2)"
    by (cases "processTokens docs store1 tks")
  from Cons.prems(1) p1 p2 have s: "store' = store2"
    by (auto split: sum.splits)
  from Cons.IH [OF p2] Cons.prems(2) s
  have "d \<in> set store1
       \<or> (\<exists>tk \<in> set tks. token d = fst tk \<and> parseSingleToken (snd (stripExclusion (fst tk))) \<noteq> None)"
    by simp
  then show ?case
  proof
    assume "d \<in> set store1"
    with processOne_store [OF p1] show ?thesis by auto
  next
    assume "\<exists>tk \<in> set tks. token d = fst tk \<and> parseSingleToken (snd (stripExclusion (fst tk))) \<noteq> None"
    then show ?thesis by auto
  qed
qed

lemma processOne_null:
  "docs (fst tk) = None \<Longrightarrow> parseSingleToken (snd (stripExclusion (fst tk))) = None
   \<Longrightarrow> processOne docs store tk = (Inr None, store)"
  by (simp add: processOne_def parseAndStoreToken_null)

lemma processTokens_results:
  "processTokens docs store tks = (Inr rs, store')
   \<Longrightarrow> length rs = length tks
       \<and> (\<forall>i < length tks. docs (fst (tks ! i)) = None
              \<and> parseSingleToken (snd (stripExclusion (fst (tks ! i)))) = None \<longrightarrow> rs ! i = None)"
proof (induction tks arbitrary: store rs store')
  case Nil
  then show ?case by simp
next
  case (Cons tk tks)
  obtain r1 store1 where p1: "processOne docs store tk = (r1, store1)"
    by (cases "processOne docs store tk")
  obtain rs2 store2 where p2: "processTokens docs store1 tks = (rs2, store2)"
    by (cases "processTokens docs store1 tks")
  from Cons.prems p1 p2 obtain d ds where r1: "r1 = Inr d" and rs2: "rs2 = Inr ds" and rs: "rs = d # ds"
    by (auto split: sum.splits)
  from Cons.IH [OF p2 [unfolded rs2]] have ih: "length ds = length tks"
    "\<forall>i < length tks. docs (fst (tks ! i)) = None
        \<and> parseSingleToken (snd (stripExclusion (fst (tks ! i)))) = None \<longrightarrow> ds ! i = None"
    by simp_all
  have hd: "docs (fst tk) = None \<and> parseSingleToken (snd (stripExclusion (fst tk))) = None \<longrightarrow> d = None"
    using p1 r1 by (auto simp: processOne_null)
  show ?case
  proof (intro conjI allI impI)
    show "length rs = length (tk # tks)" using ih rs by simp
  next
    fix i assume i: "i < length (tk # tks)"
      and h: "docs (fst ((tk # tks) ! i)) = None
        \<and> parseSingleToken (snd (stripExclusion (fst ((tk # tks) ! i)))) = None"
    show "rs ! i = None"
    proof (cases i)
      case 0
      with h hd rs show ?thesis by simp
    next
      case (Suc j)
      with i h ih rs show ?thesis by simp
    qed
  qed
qed

lemma collect_nonDynamic:
  "length rs = length tks \<Longrightarrow> i < length tks \<Longrightarrow> rs ! i = None
   \<Longrightarrow> fst (tks ! i) \<in> set (snd (collect tks rs))"
proof (induction tks rs arbitrary: i rule: collect.induct)
  case (1 tk tks res rs)
  then show ?case by (cases i) (auto split: prod.splits)
next
  case (2 tk tks rs)
  then show ?case by (cases i) (auto split: prod.splits)
qed simp_all

lemma toDocsMap_fold:
  "fold (\<lambda>d m. m(token d \<mapsto> d)) docs m0 k = None \<longleftrightarrow> m0 k = None \<and> k \<notin> token ` set docs"
  by (induction docs arbitrary: m0) auto

lemma toDocsMap_miss:
  "k \<notin> set (map token store) \<Longrightarrow> toDocsMap (InstructionModel_find store ks) k = None"
  by (auto simp: toDocsMap_def toDocsMap_fold InstructionModel_find_def)

lemma assemble_desc:
  "assemble pa fp pl = Inr (fp', stages) \<Longrightarrow> desc fp' = desc fp"
proof (induction pa arbitrary: fp pl)
  case Nil
  then show ?case by simp
next
  case (Cons d ds)
  then obtain f where f: "field d = Known f" by (cases "field d") auto
  with Cons.prems have "assemble ds
            (assignPatterns [patternDataToPattern (patternData d)] f (type d = Exclude) fp)
            (pl @ [matchStage d]) = Inr (fp', stages)" by simp
  from Cons.IH [OF this] show ?case by (cases f) (simp_all add: assignPatterns_def)
qed

lemma classify_value:
  assumes "classify f k body = Some (f', PDValue k' v)"
  shows "f' = f \<and> k' = k \<and> v = stripQuotes body
         \<and> (f = Known Items \<longrightarrow> digits1to4 v) \<and> (f = Known Keys \<longrightarrow> keysShape v)"
  using assms by (auto simp: classify_def Let_def split: option.splits if_splits)

lemma parseSingleToken_value:
  assumes "parseSingleToken t = Some (f, PDValue k v)"
  shows "(f = Known Items \<longrightarrow> digits1to4 v) \<and> (f = Known Keys \<longrightarrow> keysShape v)"
proof -
  from parseSingleToken_classified [OF assms] obtain k' body where
    "classify f k' body = Some (f, PDValue k v)" by blast
  from classify_value [OF this] show ?thesis by blast
qed

lemma classify_literal:
  assumes "comparisonMatch body = None" "rangeMatch body = None"
    "\<not> (hasRegexChar body \<or> quotedBy (CHR ''\"'') body \<or> quotedBy (CHR 0x27) body)"
  shows "classify (Known Items) k body =
           (if digits1to4 (stripQuotes body)
            then Some (Known Items, PDValue k (stripQuotes body)) else None)"
    and "classify (Known Keys) k body =
           (if keysShape (stripQuotes body)
            then Some (Known Keys, PDValue k (stripQuotes body)) else None)"
  using assms by (simp_all add: classify_def Let_def)

lemma blank_no_parts: "trim s = [] \<Longrightarrow> matchAll s = []"
proof -
  assume "trim s = []"
  then have "\<forall>x \<in> set (dropWhile isSpace s). isSpace x"
    by (simp add: trim_def)
  then have "dropWhile isSpace s = []"
    using hd_dropWhile [of isSpace s] hd_in_set [of "dropWhile isSpace s"] by blast
  then have all: "\<forall>c \<in> set s. isSpace c" by (simp add: dropWhile_eq_Nil_conv)
  have "(\<forall>c \<in> set s. isSpace c) \<Longrightarrow> matchAll s = []" for s
  proof (induction s)
    case Nil
    then show ?case by (simp add: matchAll.simps)
  next
    case (Cons c s)
    then have sp: "isSpace c" by simp
    then have nw: "\<not> isWord c" using isWord_not_space by blast
    have "matchAt (c # s) = None"
      using sp nw by (simp add: matchAt_def quotedAlternative_def wordColon_def nonSpaceRun_def)
    with Cons show ?case by (simp add: matchAll.simps [of "c # s"])
  qed
  with all show ?thesis by blast
qed

lemma tokens_are_parts:
  "tk \<in> set (fst (tokenizeInput s))
   \<Longrightarrow> fst tk \<in> set (matchAll s) \<and> isLikelyDynamic (snd (stripExclusion (fst tk)))"
  by (auto simp: tokenizeInput_def tokenizeLoop_eq split: prod.splits)

lemma getPipeline_eq:
  assumes "trim s \<noteq> []" and "tokenizeInput s = (tokens, dsc)"
    and "processTokens (toDocsMap (InstructionModel_find store (map fst tokens))) store tokens = (x, st)"
  shows "getPipelineForInstruction store s =
     (case x of
        Inl e \<Rightarrow> (Inl e, st)
      | Inr rs \<Rightarrow>
          (case assemble (fst (collect tokens rs))
                  (emptyResult\<lparr>desc := trim (dsc @ '' '' @ join '' '' (snd (collect tokens rs)))\<rparr>) [] of
             Inl e \<Rightarrow> (Inl e, st)
           | Inr (fp, stages) \<Rightarrow> (Inr \<lparr>parseResult = fp, pipeline = stages\<rparr>, st)))"
  using assms
  by (simp add: getPipelineForInstruction_def Let_def split: sum.splits prod.splits)

lemma getPipeline_unfold:
  assumes g: "getPipelineForInstruction store s = (Inr r, store')" and ne: "trim s \<noteq> []"
  shows "\<exists>rs. processTokens (toDocsMap (InstructionModel_find store (map fst (fst (tokenizeInput s)))))
            store (fst (tokenizeInput s)) = (Inr rs, store')
         \<and> desc (parseResult r)
            = trim (snd (tokenizeInput s) @ '' '' @ join '' '' (snd (collect (fst (tokenizeInput s)) rs)))
         \<and> assemble (fst (collect (fst (tokenizeInput s)) rs))
              (emptyResult\<lparr>desc := trim (snd (tokenizeInput s) @ '' '' @ join '' '' (snd (collect (fst (tokenizeInput s)) rs)))\<rparr>) []
            = Inr (parseResult r, pipeline r)"
proof -
  obtain tokens dsc where ti: "tokenizeInput s = (tokens, dsc)" by (cases "tokenizeInput s")
  let ?docs = "toDocsMap (InstructionModel_find store (map fst tokens))"
  obtain x st where pt: "processTokens ?docs store tokens = (x, st)"
    by (cases "processTokens ?docs store tokens")
  note e = getPipeline_eq [OF ne ti pt]
  from g e obtain rs where x: "x = Inr rs" by (cases x) auto
  let ?fd = "trim (dsc @ '' '' @ join '' '' (snd (collect tokens rs)))"
  let ?as = "assemble (fst (collect tokens rs)) (emptyResult\<lparr>desc := ?fd\<rparr>) []"
  from g e x obtain fp stages where as: "?as = Inr (fp, stages)"
    by (cases ?as) auto
  from g e x as have r: "r = \<lparr>parseResult = fp, pipeline = stages\<rparr>" and st: "store' = st"
    by simp_all
  from assemble_desc [OF as] have "desc fp = ?fd" by simp
  with ti pt x as r st show ?thesis by simp
qed

lemma getPipeline_null_token:
  assumes g: "getPipelineForInstruction store s = (Inr r, store')"
    and tk: "tk \<in> set (fst (tokenizeInput s))"
    and miss: "fst tk \<notin> set (map token store)"
    and null: "parseSingleToken (snd (stripExclusion (fst tk))) = None"
  shows "fst tk \<notin> set (map token store') \<and> (\<exists>pre post. desc (parseResult r) = pre @ fst tk @ post)"
proof -
  let ?tokens = "fst (tokenizeInput s)"
  let ?docs = "toDocsMap (InstructionModel_find store (map fst ?tokens))"
  from tokens_are_parts [OF tk] have part: "fst tk \<in> set (matchAll s)" by simp
  then have ne: "trim s \<noteq> []" using blank_no_parts by fastforce
  from getPipeline_unfold [OF g ne] obtain rs where
    pt: "processTokens ?docs store ?tokens = (Inr rs, store')"
    and d: "desc (parseResult r)
            = trim (snd (tokenizeInput s) @ '' '' @ join '' '' (snd (collect ?tokens rs)))"
    by blast
  from tk obtain i where i: "i < length ?tokens" "?tokens ! i = tk" by (auto simp: in_set_conv_nth)
  have dm: "?docs (fst tk) = None" using miss by (rule toDocsMap_miss)
  from processTokens_results [OF pt] i dm null have l: "length rs = length ?tokens" and n: "rs ! i = None"
    by auto
  from collect_nonDynamic [OF l i(1) n] i(2) have "fst tk \<in> set (snd (collect ?tokens rs))" by simp
  from join_contains [OF this, of "'' ''"] obtain pre post where
    j: "join '' '' (snd (collect ?tokens rs)) = pre @ fst tk @ post" by blast
  from matchAll_parts [OF part] have p: "fst tk \<noteq> []" "\<not> isSpace (hd (fst tk))" "\<not> isSpace (last (fst tk))"
    by simp_all
  from trim_keeps [OF p, of "snd (tokenizeInput s) @ '' '' @ pre" post] d j
  have c2: "\<exists>pre post. desc (parseResult r) = pre @ fst tk @ post" by simp
  have c1: "fst tk \<notin> set (map token store')"
  proof
    assume "fst tk \<in> set (map token store')"
    then obtain dd where dd: "dd \<in> set store'" "token dd = fst tk" by auto
    from processTokens_store [OF pt dd(1)] dd(2) miss null show False
      by (metis image_eqI set_map)
  qed
  from c1 c2 show ?thesis by simp
qed


subsection \<open>Literal values under items and keys\<close>

text \<open>
  Claim C10. \<^verbatim>\<open>parseSingleToken\<close> returns a literal value under the items field only when
  the literal is one to four digits, and under the keys field only when it matches
  \<^verbatim>\<open>^[A-Z0-9]{5,6}$\<close>; a body that is no comparison, range or regex and fails the test gives
  \<^verbatim>\<open>null\<close>. Then \<^verbatim>\<open>parseAndStoreToken\<close> returns \<^verbatim>\<open>null\<close> and leaves the store as it was, and
  in the result of \<^verbatim>\<open>getPipelineForInstruction\<close> no entry has been created for the token and
  the token is part of the description.
\<close>

theorem C10_literal_validation:
  "(parseSingleToken t = Some (Known Items, PDValue k v) \<longrightarrow> digits1to4 v)
   \<and> (parseSingleToken t = Some (Known Keys, PDValue k v) \<longrightarrow> keysShape v)
   \<and> (comparisonMatch b = None \<and> rangeMatch b = None
        \<and> \<not> (hasRegexChar b \<or> quotedBy (CHR ''\"'') b \<or> quotedBy (CHR 0x27) b) \<longrightarrow>
        classify (Known Items) k b =
          (if digits1to4 (stripQuotes b) then Some (Known Items, PDValue k (stripQuotes b)) else None)
        \<and> classify (Known Keys) k b =
          (if keysShape (stripQuotes b) then Some (Known Keys, PDValue k (stripQuotes b)) else None))
   \<and> (parseSingleToken (snd (stripExclusion raw)) = None \<longrightarrow>
        parseAndStoreToken store raw we = (Inr None, store))
   \<and> (getPipelineForInstruction store s = (Inr r, store') \<and> tk \<in> set (fst (tokenizeInput s))
        \<and> fst tk \<notin> set (map token store) \<and> parseSingleToken (snd (stripExclusion (fst tk))) = None \<longrightarrow>
        fst tk \<notin> set (map token store') \<and> (\<exists>pre post. desc (parseResult r) = pre @ fst tk @ post))
   \<and> parseSingleToken ''items:ABC'' = None
   \<and> parseSingleToken ''key:abc'' = None
   \<and> getPipelineForInstruction [] ''items:ABC key:abc''
       = (Inr \<lparr>parseResult = emptyResult\<lparr>desc := ''items:ABC key:abc''\<rparr>, pipeline = []\<rparr>, [])"
proof (intro conjI impI)
  assume "parseSingleToken t = Some (Known Items, PDValue k v)"
  from parseSingleToken_value [OF this] show "digits1to4 v" by simp
next
  assume "parseSingleToken t = Some (Known Keys, PDValue k v)"
  from parseSingleToken_value [OF this] show "keysShape v" by simp
next
  assume a: "comparisonMatch b = None \<and> rangeMatch b = None
        \<and> \<not> (hasRegexChar b \<or> quotedBy (CHR ''\"'') b \<or> quotedBy (CHR 0x27) b)"
  then show "classify (Known Items) k b =
          (if digits1to4 (stripQuotes b) then Some (Known Items, PDValue k (stripQuotes b)) else None)"
    by (simp add: classify_literal)
  from a show "classify (Known Keys) k b =
          (if keysShape (stripQuotes b) then Some (Known Keys, PDValue k (stripQuotes b)) else None)"
    by (simp add: classify_literal)
next
  assume "parseSingleToken (snd (stripExclusion raw)) = None"
  then show "parseAndStoreToken store raw we = (Inr None, store)" by (rule parseAndStoreToken_null)
next
  assume a: "getPipelineForInstruction store s = (Inr r, store') \<and> tk \<in> set (fst (tokenizeInput s))
        \<and> fst tk \<notin> set (map token store) \<and> parseSingleToken (snd (stripExclusion (fst tk))) = None"
  then have "fst tk \<notin> set (map token store') \<and> (\<exists>pre post. desc (parseResult r) = pre @ fst tk @ post)"
    using getPipeline_null_token [of store s r store' tk] by blast
  then show "fst tk \<notin> set (map token store')" "\<exists>pre post. desc (parseResult r) = pre @ fst tk @ post"
    by simp_all
next
  show "parseSingleToken ''items:ABC'' = None" by code_simp
next
  show "parseSingleToken ''key:abc'' = None" by code_simp
next
  show "getPipelineForInstruction [] ''items:ABC key:abc''
       = (Inr \<lparr>parseResult = emptyResult\<lparr>desc := ''items:ABC key:abc''\<rparr>, pipeline = []\<rparr>, [])"
    by code_simp
qed

theorem C10_literal_validation_witness:
  "digits1to4 ''0050'' \<and> keysShape ''GRAPVH''
   \<and> parseAndStoreToken [] ''items:ABC'' False = (Inr None, [])
   \<and> ''items:ABC'' \<notin> set (map token (snd (getPipelineForInstruction [] ''x items:ABC'')))
   \<and> (\<exists>pre post. desc (parseResult (projr (fst (getPipelineForInstruction [] ''x items:ABC''))))
          = pre @ ''items:ABC'' @ post)"
proof -
  have h1: "parseSingleToken ''items:0050'' = Some (Known Items, PDValue None ''0050'')" by code_simp
  have h2: "parseSingleToken ''GRAPVH'' = Some (Known Keys, PDValue None ''GRAPVH'')" by code_simp
  have h3: "parseSingleToken (snd (stripExclusion ''items:ABC'')) = None" by code_simp
  have g: "getPipelineForInstruction [] ''x items:ABC''
       = (Inr (projr (fst (getPipelineForInstruction [] ''x items:ABC''))),
          snd (getPipelineForInstruction [] ''x items:ABC''))" by code_simp
  have tk: "(''items:ABC'', False) \<in> set (fst (tokenizeInput ''x items:ABC''))" by code_simp
  have ms: "fst (''items:ABC'', False) \<notin> set (map token [])" by simp
  have h3': "parseSingleToken (snd (stripExclusion (fst (''items:ABC'', False)))) = None"
    using h3 by simp
  note a = C10_literal_validation [where t = "''items:0050''" and k = None and v = "''0050''",
      THEN conjunct1, THEN mp, OF h1]
  note b = C10_literal_validation [where t = "''GRAPVH''" and k = None and v = "''GRAPVH''",
      THEN conjunct2, THEN conjunct1, THEN mp, OF h2]
  note c = C10_literal_validation [where raw = "''items:ABC''" and store = "[]" and we = False,
      THEN conjunct2, THEN conjunct2, THEN conjunct2, THEN conjunct1, THEN mp, OF h3]
  note d = C10_literal_validation [where store = "[]" and s = "''x items:ABC''"
      and tk = "(''items:ABC'', False)",
      THEN conjunct2, THEN conjunct2, THEN conjunct2, THEN conjunct2, THEN conjunct1, THEN mp,
      OF conjI [OF g conjI [OF tk conjI [OF ms h3']]]]
  have e1: "''items:ABC'' \<notin> set (map token (snd (getPipelineForInstruction [] ''x items:ABC'')))"
    using d by simp
  have e2: "\<exists>pre post. desc (parseResult (projr (fst (getPipelineForInstruction [] ''x items:ABC''))))
          = pre @ ''items:ABC'' @ post"
    using d by simp
  from a b c e1 e2 show ?thesis by (intro conjI)
qed

subsection \<open>Bracketed reserved words\<close>

lemma toLowerCase_append: "toLowerCase (a @ b) = toLowerCase a @ toLowerCase b"
  by (simp add: toLowerCase_def)

lemma toLowerCase_ends:
  assumes "p \<noteq> []" "\<not> isSpace (hd p)" "\<not> isSpace (last p)"
  shows "toLowerCase p \<noteq> [] \<and> \<not> isSpace (hd (toLowerCase p)) \<and> \<not> isSpace (last (toLowerCase p))"
  using assms by (simp add: toLowerCase_def hd_map last_map toLowerChar_not_space)

lemma tokens_not_reserved:
  "tk \<in> set (fst (tokenizeInput s)) \<Longrightarrow> \<not> reservedBracket (snd (stripExclusion (fst tk)))"
  using tokens_are_parts [of tk s] reserved_not_dynamic by blast

lemma reserved_in_desc:
  assumes part: "part \<in> set (matchAll s)" and res: "reservedBracket (snd (stripExclusion part))"
  shows "\<exists>pre post. snd (tokenizeInput s) = pre @ toLowerCase part @ post"
proof -
  let ?nd = "filter (\<lambda>p. \<not> isLikelyDynamic (snd (stripExclusion p))) (matchAll s)"
  from part res have "part \<in> set ?nd" by (simp add: reserved_not_dynamic)
  from concat_contains [OF this, of "\<lambda>p. p @ '' ''"] obtain pre post where
    c: "concat (map (\<lambda>p. p @ '' '') ?nd) = pre @ (part @ '' '') @ post" by blast
  from matchAll_parts [OF part] have p: "part \<noteq> []" "\<not> isSpace (hd part)" "\<not> isSpace (last part)"
    by simp_all
  from trim_keeps [OF p, of pre "'' '' @ post"] obtain pre' post' where
    t: "trim (pre @ part @ '' '' @ post) = pre' @ part @ post'" by blast
  have "snd (tokenizeInput s) = toLowerCase (trim (concat (map (\<lambda>p. p @ '' '') ?nd)))"
    by (simp add: tokenizeInput_def tokenizeLoop_eq)
  also have "\<dots> = toLowerCase pre' @ toLowerCase part @ toLowerCase post'"
    using c t by (simp add: toLowerCase_append)
  finally show ?thesis by blast
qed

lemma reserved_in_final_desc:
  assumes part: "part \<in> set (matchAll s)" and res: "reservedBracket (snd (stripExclusion part))"
    and g: "getPipelineForInstruction store s = (Inr r, store')"
  shows "\<exists>pre post. desc (parseResult r) = pre @ toLowerCase part @ post"
proof -
  from part have ne: "trim s \<noteq> []" using blank_no_parts by fastforce
  from getPipeline_unfold [OF g ne] obtain rs where
    d: "desc (parseResult r)
        = trim (snd (tokenizeInput s) @ '' '' @ join '' '' (snd (collect (fst (tokenizeInput s)) rs)))"
    by blast
  from reserved_in_desc [OF part res] obtain pre post where
    t: "snd (tokenizeInput s) = pre @ toLowerCase part @ post" by blast
  from matchAll_parts [OF part] have "part \<noteq> []" "\<not> isSpace (hd part)" "\<not> isSpace (last part)"
    by simp_all
  from toLowerCase_ends [OF this] have p: "toLowerCase part \<noteq> []"
    "\<not> isSpace (hd (toLowerCase part))" "\<not> isSpace (last (toLowerCase part))" by simp_all
  from trim_keeps [OF p, of pre
      "post @ '' '' @ join '' '' (snd (collect (fst (tokenizeInput s)) rs))"] d t
  show ?thesis by simp
qed

lemma getPipeline_store:
  assumes g: "getPipelineForInstruction store s = (x, store')" and d: "d \<in> set store'"
  shows "d \<in> set store
         \<or> (\<exists>tk \<in> set (fst (tokenizeInput s)). token d = fst tk
               \<and> parseSingleToken (snd (stripExclusion (fst tk))) \<noteq> None)"
proof (cases "trim s = []")
  case True
  with g d show ?thesis by (simp add: getPipelineForInstruction_def)
next
  case False
  obtain tokens dsc where ti: "tokenizeInput s = (tokens, dsc)" by (cases "tokenizeInput s")
  let ?docs = "toDocsMap (InstructionModel_find store (map fst tokens))"
  obtain y st where pt: "processTokens ?docs store tokens = (y, st)"
    by (cases "processTokens ?docs store tokens")
  from g getPipeline_eq [OF False ti pt] have "store' = st"
    by (auto split: sum.splits prod.splits)
  with processTokens_store [OF pt, of d] d ti show ?thesis by simp
qed

lemma toUpperAscii_bracket:
  "toUpperAscii (CHR ''['') = CHR ''[''" "toUpperAscii (CHR '']'') = CHR '']''"
  by (simp_all add: toUpperAscii_def isLower_def)

lemma reservedBracket_any_case:
  assumes "map toUpperAscii w \<in> set reservedWords"
  shows "reservedBracket (''['' @ w @ '']'' @ rest)"
proof -
  have "startsWith (map toUpperAscii (''['' @ w @ '']'' @ rest)) (''['' @ map toUpperAscii w @ '']'')"
    by (simp add: startsWith_def toUpperAscii_bracket)
  with assms show ?thesis unfolding reservedBracket_def by blast
qed

text \<open>
  Claim C9. A part that begins (after the exclusion marker, if any) with \<^verbatim>\<open>[ITEM]\<close>,
  \<^verbatim>\<open>[ITEMS]\<close>, \<^verbatim>\<open>[KEY]\<close>, \<^verbatim>\<open>[KEYS]\<close>, \<^verbatim>\<open>[BRAND]\<close>, \<^verbatim>\<open>[BRANDS]\<close>, \<^verbatim>\<open>[LINE]\<close>, \<^verbatim>\<open>[LINES]\<close> or
  \<^verbatim>\<open>[ACC]\<close>, in any case of the letters, is never a dynamic token: the loop of
  \<^verbatim>\<open>tokenizeInput\<close> appends it to the description and goes on, so no token handed to the
  compiler begins that way, no entry written to the cache has such a key, and the
  description (of the tokenizer, and of the final result) contains the part, lower-cased.
\<close>

theorem C9_reserved_brackets:
  "(map toUpperAscii w \<in> set reservedWords \<longrightarrow> reservedBracket (''['' @ w @ '']'' @ rest))
   \<and> (reservedBracket (snd (stripExclusion part)) \<longrightarrow>
        tokenizeLoop (part # parts) toks dsc = tokenizeLoop parts toks (dsc @ part @ '' ''))
   \<and> (tk \<in> set (fst (tokenizeInput s)) \<longrightarrow> \<not> reservedBracket (snd (stripExclusion (fst tk))))
   \<and> (part \<in> set (matchAll s) \<and> reservedBracket (snd (stripExclusion part)) \<longrightarrow>
        (\<exists>pre post. snd (tokenizeInput s) = pre @ toLowerCase part @ post))
   \<and> (part \<in> set (matchAll s) \<and> reservedBracket (snd (stripExclusion part))
        \<and> getPipelineForInstruction store s = (Inr r, store') \<longrightarrow>
        (\<exists>pre post. desc (parseResult r) = pre @ toLowerCase part @ post))
   \<and> (getPipelineForInstruction store s = (x, store') \<and> d \<in> set store' \<and> d \<notin> set store \<longrightarrow>
        \<not> reservedBracket (snd (stripExclusion (token d))))"
proof (intro conjI impI)
  assume "map toUpperAscii w \<in> set reservedWords"
  then show "reservedBracket (''['' @ w @ '']'' @ rest)" by (rule reservedBracket_any_case)
next
  assume "reservedBracket (snd (stripExclusion part))"
  then show "tokenizeLoop (part # parts) toks dsc = tokenizeLoop parts toks (dsc @ part @ '' '')"
    by (cases "stripExclusion part") simp
next
  assume "tk \<in> set (fst (tokenizeInput s))"
  then show "\<not> reservedBracket (snd (stripExclusion (fst tk)))" by (rule tokens_not_reserved)
next
  assume "part \<in> set (matchAll s) \<and> reservedBracket (snd (stripExclusion part))"
  then show "\<exists>pre post. snd (tokenizeInput s) = pre @ toLowerCase part @ post"
    using reserved_in_desc by blast
next
  assume "part \<in> set (matchAll s) \<and> reservedBracket (snd (stripExclusion part))
        \<and> getPipelineForInstruction store s = (Inr r, store')"
  then show "\<exists>pre post. desc (parseResult r) = pre @ toLowerCase part @ post"
    using reserved_in_final_desc by blast
next
  assume a: "getPipelineForInstruction store s = (x, store') \<and> d \<in> set store' \<and> d \<notin> set store"
  with getPipeline_store [of store s x store' d] obtain tk where
    "tk \<in> set (fst (tokenizeInput s))" "token d = fst tk" by blast
  with tokens_not_reserved [of tk s] show "\<not> reservedBracket (snd (stripExclusion (token d)))" by simp
qed


theorem C9_reserved_brackets_witness:
  "reservedBracket (''['' @ ''Items'' @ '']'' @ ''>5'')
   \<and> tokenizeLoop [''-[acc]x'', ''ABC''] [] [] = tokenizeLoop [''ABC''] [] ([] @ ''-[acc]x'' @ '' '')
   \<and> \<not> reservedBracket (snd (stripExclusion (fst (''ABC'', False))))
   \<and> (\<exists>pre post. snd (tokenizeInput ''ABC -[Acc]x [KEY]^[A-Z]$ z'') = pre @ toLowerCase ''-[Acc]x'' @ post)
   \<and> (\<exists>pre post. desc (parseResult (projr (fst (getPipelineForInstruction [] ''ABC -[Acc]x [KEY]^[A-Z]$ z''))))
          = pre @ toLowerCase ''[KEY]^[A-Z]$'' @ post)
   \<and> \<not> reservedBracket (snd (stripExclusion (token (hd (snd (getPipelineForInstruction [] ''ABC -[Acc]x [KEY]^[A-Z]$ z''))))))"
proof -
  let ?s = "''ABC -[Acc]x [KEY]^[A-Z]$ z''"
  have h1: "map toUpperAscii ''Items'' \<in> set reservedWords" by code_simp
  have h2: "reservedBracket (snd (stripExclusion ''-[acc]x''))" by code_simp
  have h3: "(''ABC'', False) \<in> set (fst (tokenizeInput ?s))" by code_simp
  have h4: "''-[Acc]x'' \<in> set (matchAll ?s) \<and> reservedBracket (snd (stripExclusion ''-[Acc]x''))"
    by code_simp
  have g: "getPipelineForInstruction [] ?s
       = (Inr (projr (fst (getPipelineForInstruction [] ?s))), snd (getPipelineForInstruction [] ?s))"
    by code_simp
  have h5: "''[KEY]^[A-Z]$'' \<in> set (matchAll ?s) \<and> reservedBracket (snd (stripExclusion ''[KEY]^[A-Z]$''))
        \<and> getPipelineForInstruction [] ?s
            = (Inr (projr (fst (getPipelineForInstruction [] ?s))), snd (getPipelineForInstruction [] ?s))"
    using g by code_simp
  have h6: "getPipelineForInstruction [] ?s
            = (Inr (projr (fst (getPipelineForInstruction [] ?s))), snd (getPipelineForInstruction [] ?s))
        \<and> hd (snd (getPipelineForInstruction [] ?s)) \<in> set (snd (getPipelineForInstruction [] ?s))
        \<and> hd (snd (getPipelineForInstruction [] ?s)) \<notin> set []"
    by code_simp
  note a = C9_reserved_brackets [where w = "''Items''" and rest = "''>5''",
      THEN conjunct1, THEN mp, OF h1]
  note b = C9_reserved_brackets [where part = "''-[acc]x''" and parts = "[''ABC'']" and toks = "[]"
      and dsc = "[]", THEN conjunct2, THEN conjunct1, THEN mp, OF h2]
  note c = C9_reserved_brackets [where tk = "(''ABC'', False)" and s = ?s,
      THEN conjunct2, THEN conjunct2, THEN conjunct1, THEN mp, OF h3]
  note d = C9_reserved_brackets [where part = "''-[Acc]x''" and s = ?s,
      THEN conjunct2, THEN conjunct2, THEN conjunct2, THEN conjunct1, THEN mp, OF h4]
  note e = C9_reserved_brackets [where part = "''[KEY]^[A-Z]$''" and s = ?s and store = "[]",
      THEN conjunct2, THEN conjunct2, THEN conjunct2, THEN conjunct2, THEN conjunct1, THEN mp,
      OF h5]
  note f = C9_reserved_brackets [where s = ?s and store = "[]"
      and d = "hd (snd (getPipelineForInstruction [] ?s))",
      THEN conjunct2, THEN conjunct2, THEN conjunct2, THEN conjunct2, THEN conjunct2, THEN mp,
      OF h6]
  from a b c d e f show ?thesis by (intro conjI)
qed

subsection \<open>Instructions without a field prefix\<close>

lemma hasFieldPrefix_append:
  "isWord c \<Longrightarrow> hasFieldPrefix (a @ c # CHR '':'' # r)"
proof (induction a)
  case Nil
  then show ?case by simp
next
  case (Cons x a)
  then show ?case by (cases a) simp_all
qed

lemma wordColon_prefix:
  assumes "wordColon v = Some (w, r)"
  shows "hasFieldPrefix v"
proof -
  from assms have w: "w = takeWhile isWord v" and ne: "w \<noteq> []"
    by (auto simp: wordColon_def Let_def split: if_splits)
  from ne w have "isWord (last w)" by (metis last_in_set set_takeWhileD)
  moreover from wordColon_Some [OF assms] ne have "v = butlast w @ last w # CHR '':'' # r" by simp
  ultimately show ?thesis using hasFieldPrefix_append by metis
qed

lemma hasFieldPrefix_drop: "hasFieldPrefix (drop 1 s) \<Longrightarrow> hasFieldPrefix s"
proof (cases s)
  case Nil
  then show "hasFieldPrefix (drop 1 s) \<Longrightarrow> hasFieldPrefix s" by simp
next
  case (Cons x s')
  then show "hasFieldPrefix (drop 1 s) \<Longrightarrow> hasFieldPrefix s" by (cases s') simp_all
qed

lemma splitAlias_plain:
  assumes "\<not> hasFieldPrefix s"
  shows "splitAlias (snd (stripExclusion s)) = (None, snd (stripExclusion s))"
proof -
  have "\<not> hasFieldPrefix (snd (stripExclusion s))"
    using assms hasFieldPrefix_drop [of s] by (auto simp: stripExclusion_def)
  then have "wordColon (snd (stripExclusion s)) = None"
    using wordColon_prefix by (cases "wordColon (snd (stripExclusion s))") auto
  then show ?thesis by (simp add: splitAlias_def fieldMatchQuoted_def fieldMatch_def)
qed

lemma trim_Nil: "trim [] = []"
  by (simp add: trim_def)

lemma assignPatterns_desc: "desc (assignPatterns ps f ex r) = desc r"
  by (cases f) (simp_all add: assignPatterns_def)

lemma single_token:
  assumes "\<not> hasFieldPrefix s"
  shows "parseInstruction s =
     Inr (case (if extractPatterns (snd (stripExclusion s)) = [] then None
                else determineField (snd (stripExclusion s)) (extractPatterns (snd (stripExclusion s)))) of
            Some f \<Rightarrow> assignPatterns (extractPatterns (snd (stripExclusion s))) f
                        (fst (stripExclusion s)) emptyResult
          | None \<Rightarrow> emptyResult\<lparr>desc := trim (s @ '' '')\<rparr>)"
proof -
  obtain ex v where sv: "stripExclusion s = (ex, v)" by (cases "stripExclusion s")
  from splitAlias_plain [OF assms] sv have sa: "splitAlias v = (None, v)" by simp
  have d0: "desc emptyResult = []" by (simp add: emptyResult_def)
  define opt where
    "opt = (if extractPatterns v = [] then None else determineField v (extractPatterns v))"
  have pt: "processToken s None emptyResult =
       Inr (case opt of
              Some f \<Rightarrow> assignPatterns (extractPatterns v) f ex emptyResult
            | None \<Rightarrow> emptyResult\<lparr>desc := s @ '' ''\<rparr>, False)"
    using sv sa d0 unfolding opt_def by (simp add: processToken_def Let_def split: option.splits)
  have tk: "tokenize s = [s]" using assms by (simp add: tokenize_def)
  have "parseInstruction s =
     Inr (case opt of
            Some f \<Rightarrow> assignPatterns (extractPatterns v) f ex emptyResult
          | None \<Rightarrow> emptyResult\<lparr>desc := trim (s @ '' '')\<rparr>)"
  proof (cases opt)
    case None
    with pt have "processToken s None emptyResult = Inr (emptyResult\<lparr>desc := s @ '' ''\<rparr>, False)"
      by simp
    with tk None show ?thesis by (simp add: parseInstruction_def)
  next
    case (Some f)
    with pt have "processToken s None emptyResult
        = Inr (assignPatterns (extractPatterns v) f ex emptyResult, False)" by simp
    moreover have "desc (assignPatterns (extractPatterns v) f ex emptyResult) = []"
      by (simp add: assignPatterns_desc d0)
    ultimately show ?thesis using tk Some
      by (simp add: parseInstruction_def trim_Nil)
  qed
  moreover from sv have "snd (stripExclusion s) = v" "fst (stripExclusion s) = ex" by simp_all
  ultimately show ?thesis unfolding opt_def by (simp only:)
qed




subsection \<open>Free text\<close>

lemma no_colon_wordColon: "CHR '':'' \<notin> set s \<Longrightarrow> wordColon s = None"
proof -
  assume a: "CHR '':'' \<notin> set s"
  have "\<not> startsWith (dropWhile isWord s) '':''"
  proof
    assume "startsWith (dropWhile isWord s) '':''"
    then have "dropWhile isWord s = CHR '':'' # tl (dropWhile isWord s)"
      by (cases "dropWhile isWord s") (auto simp: startsWith_def)
    then have "CHR '':'' \<in> set (dropWhile isWord s)" by (metis list.set_intros(1))
    then have "CHR '':'' \<in> set s" by (rule set_dropWhileD)
    with a show False by simp
  qed
  then show ?thesis by (simp add: wordColon_def Let_def)
qed




lemma space_is_space: "isSpace (CHR '' '')"
  by (simp add: isSpace_def)







subsection \<open>Where the tokens go\<close>

lemma entries_assign: "entries (assignPatterns ps f ex r) = entries r + length ps"
  by (cases f; cases ex) (simp_all add: assignPatterns_def push_def entries_def)

lemma entries_desc: "entries (r\<lparr>desc := d\<rparr>) = entries r"
  by (simp add: entries_def)

lemma extractPatterns_one: "extractPatterns v = [] \<or> (\<exists>p. extractPatterns v = [p])"
proof -
  obtain k pv where kp: "(case keyPrefixMatch v of Some (p, r) \<Rightarrow> (Some p, r) | None \<Rightarrow> (None, v)) = (k, pv)"
    by (cases "case keyPrefixMatch v of Some (p, r) \<Rightarrow> (Some p, r) | None \<Rightarrow> (None, v)")
  show ?thesis
    unfolding extractPatterns_def kp Let_def
    by (simp split: option.splits)
qed

lemma special_not_code:
  "\<forall>x \<in> set (''[><*^$'' @ [CHR 0x22, CHR 0x27]). \<not> (isUpperAlnum x \<or> isSpace x)"
  by code_simp

lemma lastSeparator_none: "CHR ''<'' \<notin> set s \<Longrightarrow> lastSeparator a s = None"
  by (induction s arbitrary: a) auto

lemma itemsShape_chars:
  assumes "itemsShape v"
  shows "length v = 10" and "\<forall>c \<in> set v. isUpperAlnum c \<or> isSpace c"
proof -
  show len: "length v = 10" using assms by (simp add: itemsShape_def)
  show "\<forall>c \<in> set v. isUpperAlnum c \<or> isSpace c"
  proof
    fix c assume "c \<in> set v"
    then obtain i where i: "i < length v" "v ! i = c" by (auto simp: in_set_conv_nth)
    have "i < 5 \<or> i = 5 \<or> 6 \<le> i" by arith
    then show "isUpperAlnum c \<or> isSpace c"
    proof (elim disjE)
      assume "i < 5"
      with i len have "c \<in> set (take 5 v)" by (auto simp: in_set_conv_nth intro!: exI [of _ i])
      with assms show ?thesis by (simp add: itemsShape_def)
    next
      assume "i = 5" with i assms show ?thesis by (auto simp: itemsShape_def)
    next
      assume "6 \<le> i"
      with i len have "c \<in> set (drop 6 v)"
        by (auto simp: in_set_conv_nth intro!: exI [of _ "i - 6"])
      with assms show ?thesis by (simp add: itemsShape_def)
    qed
  qed
qed

lemma itemsShape_patterns:
  assumes "itemsShape v"
  shows "\<exists>p. extractPatterns v = [p]"
proof -
  note len = itemsShape_chars(1) [OF assms] and ch = itemsShape_chars(2) [OF assms]
  have c1: "x \<notin> set v" if "x \<in> set (''[><*^$'' @ [CHR 0x22, CHR 0x27])" for x
    using that ch special_not_code by blast
  from len obtain c0 r where v: "v = c0 # r" by (cases v) auto
  have hd: "c0 \<in> set v" using v by simp
  have "c0 \<noteq> CHR ''[''" using c1 [of "CHR ''[''"] hd by auto
  then have kp: "keyPrefixMatch v = None" unfolding v by (simp add: keyPrefixMatch_def Let_def)
  have gl: "c0 \<noteq> CHR ''>''" "c0 \<noteq> CHR ''<''"
    using c1 [of "CHR ''>''"] c1 [of "CHR ''<''"] hd by auto
  then have cmp: "\<not> isComparisonPattern v"
    unfolding v by (simp add: isComparisonPattern_def comparisonOperators_def startsWith_def)
  have "CHR ''<'' \<notin> set v" using c1 [of "CHR ''<''"] by simp
  then have rng: "\<not> isRangePattern v"
    by (simp add: isRangePattern_def rangeMatch_def lastSeparator_none)
  have "\<not> hasRegexChar v"
    using c1 [of "CHR ''*''"] c1 [of "CHR ''^''"] c1 [of "CHR ''$''"]
    by (auto simp: hasRegexChar_def)
  moreover have "c0 \<noteq> CHR 0x22" "c0 \<noteq> CHR 0x27"
    using c1 [of "CHR 0x22"] c1 [of "CHR 0x27"] hd by auto
  then have "\<not> quotedBy (CHR 0x22) v" "\<not> quotedBy (CHR 0x27) v"
    unfolding v by (simp_all add: quotedBy_def)
  ultimately have rgx: "\<not> isRegexPattern v" by (simp add: isRegexPattern_def)
  show ?thesis using kp cmp rng rgx by (simp add: extractPatterns_def)
qed

lemma processToken_routes:
  assumes "processToken tok nxt r = Inr (r', merged)"
  shows "(entries r' = entries r + 1 \<and> desc r' = desc r)
         \<or> (entries r' = entries r \<and> desc r' = desc r @ tok @ '' '' \<and> \<not> merged)
         \<or> (r' = r \<and> \<not> merged \<and> fst (splitAlias (snd (stripExclusion tok))) \<noteq> None
             \<and> extractPatterns (snd (splitAlias (snd (stripExclusion tok)))) = [])"
proof -
  obtain ex v0 where sv: "stripExclusion tok = (ex, v0)" by (cases "stripExclusion tok")
  obtain fld v where sa: "splitAlias v0 = (fld, v)" by (cases "splitAlias v0")
  let ?comb = "case nxt of Some n \<Rightarrow> v @ '' '' @ n | None \<Rightarrow> []"
  show ?thesis
  proof (cases "fld = None \<and> nxt \<noteq> None \<and> itemsShape ?comb")
    case True
    with assms sv sa have r': "r' = assignPatterns (extractPatterns ?comb) Items ex r"
      by (simp add: processToken_def Let_def)
    from True itemsShape_patterns obtain p where "extractPatterns ?comb = [p]" by blast
    with r' show ?thesis by (simp add: entries_assign assignPatterns_desc)
  next
    case False
    note nomerge = this
    from extractPatterns_one [of v] show ?thesis
    proof
      assume e: "extractPatterns v = []"
      show ?thesis
      proof (cases fld)
        case None
        with assms sv sa nomerge e have "r' = r\<lparr>desc := desc r @ tok @ '' ''\<rparr>" "\<not> merged"
          by (auto simp: processToken_def Let_def)
        then show ?thesis by (simp add: entries_desc)
      next
        case (Some f)
        with assms sv sa nomerge e have "r' = r" "\<not> merged"
          by (auto simp: processToken_def Let_def)
        with sv sa Some e show ?thesis by simp
      qed
    next
      assume "\<exists>p. extractPatterns v = [p]"
      then obtain p where e: "extractPatterns v = [p]" by blast
      show ?thesis
      proof (cases fld)
        case None
        show ?thesis
        proof (cases "determineField v [p]")
          case dn: None
          with assms sv sa nomerge e None have "r' = r\<lparr>desc := desc r @ tok @ '' ''\<rparr>" "\<not> merged"
            by (auto simp: processToken_def Let_def)
          then show ?thesis by (simp add: entries_desc)
        next
          case (Some f)
          with assms sv sa nomerge e None have "r' = assignPatterns [p] f ex r"
            by (auto simp: processToken_def Let_def)
          then show ?thesis by (simp add: entries_assign assignPatterns_desc)
        qed
      next
        case (Some fv)
        with assms sv sa nomerge e obtain f where "fv = Known f" "r' = assignPatterns [p] f ex r"
          by (cases fv) (auto simp: processToken_def Let_def)
        then show ?thesis by (simp add: entries_assign assignPatterns_desc)
      qed
    qed
  qed
qed

text \<open>
  The lemma above is one round of \<^verbatim>\<open>InstructionParser.parseInstruction\<close>: a token adds one
  pattern to one list (a merged pair adds one pattern for both tokens), or it is appended
  to the description, or, third case, nothing records it. The next lemma is the whole of
  \<^verbatim>\<open>ParserPipeline.getPipelineForInstruction\<close>: when it returns a result, the parts of the
  instruction are, one for one, the entries of the lists (one stage each), the tokens
  joined into the description as not dynamic, and the parts the tokenizer sent to the
  description.
\<close>

lemma assemble_counts:
  "assemble pa fp pl = Inr (fp', stages)
   \<Longrightarrow> entries fp' = entries fp + length pa \<and> length stages = length pl + length pa"
proof (induction pa arbitrary: fp pl)
  case Nil
  then show ?case by simp
next
  case (Cons d ds)
  then obtain f where f: "field d = Known f" by (cases "field d") auto
  with Cons.prems have "assemble ds
            (assignPatterns [patternDataToPattern (patternData d)] f (type d = Exclude) fp)
            (pl @ [matchStage d]) = Inr (fp', stages)" by simp
  from Cons.IH [OF this] show ?case by (simp add: entries_assign)
qed

lemma collect_counts:
  "length rs = length tks
   \<Longrightarrow> length (fst (collect tks rs)) + length (snd (collect tks rs)) = length tks
       \<and> set (snd (collect tks rs)) \<subseteq> fst ` set tks"
proof (induction tks rs rule: collect.induct)
  case (1 tk tks res rs)
  then show ?case by (auto split: prod.splits)
next
  case (2 tk tks rs)
  then show ?case by (auto split: prod.splits)
qed simp_all

lemma tokens_eq:
  "fst (tokenizeInput s)
   = map (\<lambda>p. (p, fst (stripExclusion p)))
       (filter (\<lambda>p. isLikelyDynamic (snd (stripExclusion p))) (matchAll s))"
  by (simp add: tokenizeInput_def tokenizeLoop_eq)

lemma pipeline_partition:
  assumes g: "getPipelineForInstruction store s = (Inr r, store')"
  shows "\<exists>nd. entries (parseResult r) + length nd
              + length (filter (\<lambda>p. \<not> isLikelyDynamic (snd (stripExclusion p))) (matchAll s))
              = length (matchAll s)
            \<and> length (pipeline r) = entries (parseResult r)
            \<and> desc (parseResult r) = trim (snd (tokenizeInput s) @ '' '' @ join '' '' nd)
            \<and> set nd \<subseteq> set (matchAll s)"
proof (cases "trim s = []")
  case True
  with g have r: "r = \<lparr>parseResult = emptyResult, pipeline = []\<rparr>"
    by (simp add: getPipelineForInstruction_def)
  from True have m: "matchAll s = []" by (rule blank_no_parts)
  have t: "snd (tokenizeInput s) = []" by (simp add: tokenizeInput_def m trim_Nil toLowerCase_def)
  have e: "entries emptyResult = 0" "desc emptyResult = []"
    by (simp_all add: entries_def emptyResult_def emptyFieldSet_def)
  have "trim ([] @ '' '' @ join '' '' []) = []" by (simp add: trim_def join_def space_is_space)
  with r m t e show ?thesis by (intro exI [of _ "[]"]) simp
next
  case False
  let ?tokens = "fst (tokenizeInput s)"
  from getPipeline_unfold [OF g False] obtain rs where
    pt: "processTokens (toDocsMap (InstructionModel_find store (map fst ?tokens))) store ?tokens
           = (Inr rs, store')"
    and d: "desc (parseResult r)
            = trim (snd (tokenizeInput s) @ '' '' @ join '' '' (snd (collect ?tokens rs)))"
    and as: "assemble (fst (collect ?tokens rs))
              (emptyResult\<lparr>desc := trim (snd (tokenizeInput s) @ '' '' @ join '' '' (snd (collect ?tokens rs)))\<rparr>) []
            = Inr (parseResult r, pipeline r)"
    by blast
  from processTokens_results [OF pt] have l: "length rs = length ?tokens" by simp
  note cc = collect_counts [OF l]
  have e0: "entries (emptyResult\<lparr>desc := x\<rparr>) = 0" for x
    by (simp add: entries_def emptyResult_def emptyFieldSet_def)
  from assemble_counts [OF as] have en: "entries (parseResult r) = length (fst (collect ?tokens rs))"
    and pl: "length (pipeline r) = length (fst (collect ?tokens rs))"
    by (simp_all add: e0)
  have lt: "length ?tokens = length (filter (\<lambda>p. isLikelyDynamic (snd (stripExclusion p))) (matchAll s))"
    by (simp add: tokens_eq)
  have sub: "fst ` set ?tokens \<subseteq> set (matchAll s)" by (auto simp: tokens_eq)
  have "length (filter (\<lambda>p. isLikelyDynamic (snd (stripExclusion p))) (matchAll s))
        + length (filter (\<lambda>p. \<not> isLikelyDynamic (snd (stripExclusion p))) (matchAll s))
        = length (matchAll s)"
    by (rule sum_length_filter_compl)
  with cc en pl lt sub d show ?thesis
    by (intro exI [of _ "snd (collect ?tokens rs)"]) auto
qed

text \<open>
  Claim C8: every token the tokenizer produces ends up in exactly one of the include
  lists, the exclude lists or the description, and none is dropped. The third case of
  \<open>processToken_routes\<close> breaks it in \<^verbatim>\<open>InstructionParser\<close>: for the instruction
  \<^verbatim>\<open>items:""'""\<close> the tokenizer returns one token; its value \<^verbatim>\<open>"'"\<close> is a quoted regex that
  \<^verbatim>\<open>parseRegex\<close> strips to the empty string, \<^verbatim>\<open>if (regex)\<close> takes the empty string for no
  regex, and, the field being known, the token is not added to the description either.
  The result holds no pattern and an empty description. \<^verbatim>\<open>ParserPipeline\<close> files the same
  token under items, as a regex with the empty value.
\<close>

theorem C8_dropped_token:
  "tokenize (''items:\"\"'' @ [CHR 0x27] @ ''\"\"'') = [''items:\"\"'' @ [CHR 0x27] @ ''\"\"'']
   \<and> InstructionParser (''items:\"\"'' @ [CHR 0x27] @ ''\"\"'') = Inr emptyResult
   \<and> entries emptyResult = 0 \<and> desc emptyResult = []
   \<and> fst (getPipelineForInstruction [] (''items:\"\"'' @ [CHR 0x27] @ ''\"\"''))
       = Inr \<lparr>parseResult = emptyResult\<lparr>items := \<lparr>include = [RegexPattern [] None], exclude = []\<rparr>\<rparr>,
              pipeline = [Match (Expr (RegexMatch
                 (Concat [''$key.line.code'', ''$key.brand.code'', ''$code'']) [] ''i''))]\<rparr>"
  by code_simp

subsection \<open>Shape-based field resolution\<close>

lemma marks_not_code:
  "\<forall>x \<in> set ''-:''. \<not> (isUpperAlnum x \<or> isSpace x)"
  by code_simp

lemma hasFieldPrefix_colon: "hasFieldPrefix s \<Longrightarrow> CHR '':'' \<in> set s"
  by (induction s rule: hasFieldPrefix.induct) auto

lemma code_word:
  assumes al: "\<forall>c \<in> set v. isUpperAlnum c" and ne: "v \<noteq> []"
  shows "stripExclusion v = (False, v)" and "\<not> hasFieldPrefix v" and "CHR '':'' \<notin> set v"
    and "extractPatterns v = [ValuePattern v None]"
    and "keyPrefixMatch v = None" and "comparisonMatch v = None" and "rangeMatch v = None"
    and "\<not> (hasRegexChar v \<or> quotedBy (CHR ''\"'') v \<or> quotedBy (CHR 0x27) v)"
    and "stripQuotes v = v"
proof -
  have c1: "x \<notin> set v" if "x \<in> set (''[><*^$'' @ [CHR 0x22, CHR 0x27])" for x
    using that al special_not_code by blast
  have c2: "x \<notin> set v" if "x \<in> set ''-:''" for x
    using that al marks_not_code by blast
  from ne obtain c0 r where v: "v = c0 # r" by (cases v) auto
  have hd: "c0 \<in> set v" using v by simp
  have la: "last v \<in> set v" using ne by simp
  have "c0 \<noteq> CHR ''-''" using c2 [of "CHR ''-''"] hd by auto
  then show se: "stripExclusion v = (False, v)"
    unfolding v by (simp add: stripExclusion_def startsWith_def)
  show nc: "CHR '':'' \<notin> set v" using c2 [of "CHR '':''"] by simp
  then show "\<not> hasFieldPrefix v" using hasFieldPrefix_colon by blast
  have "c0 \<noteq> CHR ''[''" using c1 [of "CHR ''[''"] hd by auto
  then show kp: "keyPrefixMatch v = None" unfolding v by (simp add: keyPrefixMatch_def Let_def)
  have gl: "c0 \<noteq> CHR ''>''" "c0 \<noteq> CHR ''<''"
    using c1 [of "CHR ''>''"] c1 [of "CHR ''<''"] hd by auto
  then have cmp: "\<not> isComparisonPattern v"
    unfolding v by (simp add: isComparisonPattern_def comparisonOperators_def startsWith_def)
  from gl show cm: "comparisonMatch v = None"
    unfolding v by (simp add: comparisonMatch_def comparisonOperators_def startsWith_def)
  have "CHR ''<'' \<notin> set v" using c1 [of "CHR ''<''"] by simp
  then show rm: "rangeMatch v = None" by (simp add: rangeMatch_def lastSeparator_none)
  then have rng: "\<not> isRangePattern v" by (simp add: isRangePattern_def)
  have "\<not> hasRegexChar v"
    using c1 [of "CHR ''*''"] c1 [of "CHR ''^''"] c1 [of "CHR ''$''"]
    by (auto simp: hasRegexChar_def)
  moreover have q: "c0 \<noteq> CHR 0x22" "c0 \<noteq> CHR 0x27"
    using c1 [of "CHR 0x22"] c1 [of "CHR 0x27"] hd by auto
  then have "\<not> quotedBy (CHR 0x22) v" "\<not> quotedBy (CHR 0x27) v"
    unfolding v by (simp_all add: quotedBy_def)
  ultimately show rx: "\<not> (hasRegexChar v \<or> quotedBy (CHR ''\"'') v \<or> quotedBy (CHR 0x27) v)"
    by simp
  then have rgx: "\<not> isRegexPattern v" by (simp add: isRegexPattern_def)
  have ql: "last v \<noteq> CHR 0x22" "last v \<noteq> CHR 0x27"
    using c1 [of "CHR 0x22"] c1 [of "CHR 0x27"] la by auto
  have hv: "hd v = c0" using v by simp
  show sq: "stripQuotes v = v"
    using q ql ne hv by (simp add: stripQuotes_def stripQuote_def)
  show "extractPatterns v = [ValuePattern v None]"
    using kp cmp rng rgx sq by (simp add: extractPatterns_def truthy_def)
qed

lemma code_word_parser:
  assumes al: "\<forall>c \<in> set v. isUpperAlnum c" and ne: "v \<noteq> []"
    and df: "determineField v [ValuePattern v None] = Some f"
  shows "parseInstruction v = Inr (assignPatterns [ValuePattern v None] f False emptyResult)"
  using single_token [OF code_word(2) [OF al ne]] df
  by (simp add: code_word(1) [OF al ne] code_word(4) [OF al ne])

lemma code_word_pipeline:
  assumes al: "\<forall>c \<in> set v. isUpperAlnum c" and ne: "v \<noteq> []"
    and df: "PP_determineField v = f" and ok: "f = Lines \<or> f = Brands \<or> (f = Keys \<and> keysShape v)"
  shows "parseSingleToken v = Some (Known f, PDValue None v)"
proof -
  note cw = code_word [OF al ne]
  have wc: "wordColon v = None" using cw(3) by (rule no_colon_wordColon)
  have rf: "resolveField v = (None, v)"
    using wc by (simp add: resolveField_def fieldMatchQuoted_def fieldMatch_def)
  have bo: "bracketOnly v = None" using wc by (simp add: bracketOnly_def)
  have cl: "classify (Known f) None v = Some (Known f, PDValue None v)"
    using cw(6,7,8,9) ok by (auto simp: classify_def Let_def)
  show ?thesis using rf df bo cw(5) cl by (simp add: parseSingleToken_def)
qed


lemma assign_one:
  "assignPatterns [ValuePattern v None] Lines False emptyResult
     = emptyResult\<lparr>lines := \<lparr>include = [ValuePattern v None], exclude = []\<rparr>\<rparr>"
  "assignPatterns [ValuePattern v None] Brands False emptyResult
     = emptyResult\<lparr>brands := \<lparr>include = [ValuePattern v None], exclude = []\<rparr>\<rparr>"
  "assignPatterns [ValuePattern v None] Keys False emptyResult
     = emptyResult\<lparr>keys := \<lparr>include = [ValuePattern v None], exclude = []\<rparr>\<rparr>"
  by (simp_all add: assignPatterns_def push_def emptyResult_def emptyFieldSet_def)

text \<open>
  Claim C7. A bare token of exactly three characters of \<^verbatim>\<open>[A-Z0-9]\<close> resolves to lines
  (the lines shape is tried before the brands shape), one of exactly two such characters
  to brands, and one of five or six to keys. This holds for
  \<^verbatim>\<open>InstructionParser.determineField\<close>, whatever patterns were extracted, and for
  \<^verbatim>\<open>ParserPipeline.determineField\<close>; accordingly \<^verbatim>\<open>parseInstruction\<close> files the
  token as the only included value of that field, and \<^verbatim>\<open>parseSingleToken\<close> compiles it
  as a literal value of that field.
\<close>

theorem C7_shape_resolution:
  assumes "\<forall>c \<in> set v. isUpperAlnum c"
  shows "(length v = 3 \<longrightarrow>
            determineField v ps = Some Lines \<and> PP_determineField v = Lines
          \<and> parseInstruction v
              = Inr (emptyResult\<lparr>lines := \<lparr>include = [ValuePattern v None], exclude = []\<rparr>\<rparr>)
          \<and> parseSingleToken v = Some (Known Lines, PDValue None v))
       \<and> (length v = 2 \<longrightarrow>
            determineField v ps = Some Brands \<and> PP_determineField v = Brands
          \<and> parseInstruction v
              = Inr (emptyResult\<lparr>brands := \<lparr>include = [ValuePattern v None], exclude = []\<rparr>\<rparr>)
          \<and> parseSingleToken v = Some (Known Brands, PDValue None v))
       \<and> (length v = 5 \<or> length v = 6 \<longrightarrow>
            determineField v ps = Some Keys \<and> PP_determineField v = Keys
          \<and> parseInstruction v
              = Inr (emptyResult\<lparr>keys := \<lparr>include = [ValuePattern v None], exclude = []\<rparr>\<rparr>)
          \<and> parseSingleToken v = Some (Known Keys, PDValue None v))"
proof -
  have d: "length v = 3 \<Longrightarrow> determineField v qs = Some Lines \<and> PP_determineField v = Lines"
    "length v = 2 \<Longrightarrow> determineField v qs = Some Brands \<and> PP_determineField v = Brands"
    "length v = 5 \<or> length v = 6 \<Longrightarrow>
       determineField v qs = Some Keys \<and> PP_determineField v = Keys \<and> keysShape v" for qs
    using assms
    by (auto simp: determineField_def PP_determineField_def keysShape_def linesShape_def
          brandsShape_def itemsShape_def)
  have l: "length v = 3 \<longrightarrow>
            determineField v ps = Some Lines \<and> PP_determineField v = Lines
          \<and> parseInstruction v
              = Inr (emptyResult\<lparr>lines := \<lparr>include = [ValuePattern v None], exclude = []\<rparr>\<rparr>)
          \<and> parseSingleToken v = Some (Known Lines, PDValue None v)"
  proof
    assume n: "length v = 3"
    then have ne: "v \<noteq> []" by auto
    from code_word_parser [OF assms ne] d(1) [OF n] code_word_pipeline [OF assms ne, of Lines]
    show "determineField v ps = Some Lines \<and> PP_determineField v = Lines
          \<and> parseInstruction v
              = Inr (emptyResult\<lparr>lines := \<lparr>include = [ValuePattern v None], exclude = []\<rparr>\<rparr>)
          \<and> parseSingleToken v = Some (Known Lines, PDValue None v)"
      by (simp add: assign_one)
  qed
  have b: "length v = 2 \<longrightarrow>
            determineField v ps = Some Brands \<and> PP_determineField v = Brands
          \<and> parseInstruction v
              = Inr (emptyResult\<lparr>brands := \<lparr>include = [ValuePattern v None], exclude = []\<rparr>\<rparr>)
          \<and> parseSingleToken v = Some (Known Brands, PDValue None v)"
  proof
    assume n: "length v = 2"
    then have ne: "v \<noteq> []" by auto
    from code_word_parser [OF assms ne] d(2) [OF n] code_word_pipeline [OF assms ne, of Brands]
    show "determineField v ps = Some Brands \<and> PP_determineField v = Brands
          \<and> parseInstruction v
              = Inr (emptyResult\<lparr>brands := \<lparr>include = [ValuePattern v None], exclude = []\<rparr>\<rparr>)
          \<and> parseSingleToken v = Some (Known Brands, PDValue None v)"
      by (simp add: assign_one)
  qed
  have k: "length v = 5 \<or> length v = 6 \<longrightarrow>
            determineField v ps = Some Keys \<and> PP_determineField v = Keys
          \<and> parseInstruction v
              = Inr (emptyResult\<lparr>keys := \<lparr>include = [ValuePattern v None], exclude = []\<rparr>\<rparr>)
          \<and> parseSingleToken v = Some (Known Keys, PDValue None v)"
  proof
    assume n: "length v = 5 \<or> length v = 6"
    then have ne: "v \<noteq> []" by auto
    from code_word_parser [OF assms ne] d(3) [OF n] code_word_pipeline [OF assms ne, of Keys]
    show "determineField v ps = Some Keys \<and> PP_determineField v = Keys
          \<and> parseInstruction v
              = Inr (emptyResult\<lparr>keys := \<lparr>include = [ValuePattern v None], exclude = []\<rparr>\<rparr>)
          \<and> parseSingleToken v = Some (Known Keys, PDValue None v)"
      by (simp add: assign_one)
  qed
  from l b k show ?thesis by (intro conjI)
qed

theorem C7_shape_resolution_witness:
  "determineField ''ABC'' [ValuePattern ''ABC'' None] = Some Lines
   \<and> PP_determineField ''ABC'' = Lines
   \<and> parseInstruction ''ABC''
       = Inr (emptyResult\<lparr>lines := \<lparr>include = [ValuePattern ''ABC'' None], exclude = []\<rparr>\<rparr>)
   \<and> parseSingleToken ''ABC'' = Some (Known Lines, PDValue None ''ABC'')"
proof -
  have h: "\<forall>c \<in> set ''ABC''. isUpperAlnum c"
    by (simp add: isUpperAlnum_def isUpper_def isDigit_def)
  have n: "length ''ABC'' = 3" by simp
  note c = C7_shape_resolution [OF h, of "[ValuePattern ''ABC'' None]", THEN conjunct1, THEN mp, OF n]
  then show ?thesis .
qed

subsection \<open>Zero padding of comparison values and range bounds\<close>






































subsection \<open>Quoted phrases\<close>







end
